theory Spec2Isabelle
  imports Main "HOL-Library.Word"
begin

unbundle bit_operations_syntax

section \<open>Inline compression of bcachefs extents (libbcachefs/compress.c)\<close>

text \<open>
  The development follows \<^verbatim>\<open>src/libbcachefs/compress.c\<close> function by function.
  A C name that starts with two underscores is written with the prefix \<open>uu_\<close>
  (\<^verbatim>\<open>__bio_uncompress\<close> is \<open>uu_bio_uncompress\<close>), since an Isabelle name cannot start
  with an underscore. Byte counts are natural numbers: every count that reaches a codec
  has passed the check of line 66 (\<^verbatim>\<open>bvec_iter_sectors(start) > encoded_extent_max\<close>
  is fatal), and the extent limit is a 16-bit number of sectors, so the conversions
  between \<^verbatim>\<open>size_t\<close>, \<^verbatim>\<open>unsigned\<close> and \<^verbatim>\<open>int\<close> of the C text keep the value. Three
  subtractions can wrap and are written out modulo a power of two: \<^verbatim>\<open>dst_len - 4\<close> in the
  zstd branch of \<^verbatim>\<open>attempt_compress\<close> (for a destination of fewer than four bytes), and
  \<^verbatim>\<open>pad\<close> and \<^verbatim>\<open>block_bytes(c) - 1\<close> in \<^verbatim>\<open>__bio_compress\<close> (for a block size of 0).
\<close>

subsection \<open>Bytes and memory\<close>

type_synonym byte = "8 word"
type_synonym bytes = "byte list"

text \<open>Fatal outcomes: \<^verbatim>\<open>BUG()\<close> and a failed \<^verbatim>\<open>BUG_ON\<close> stop the kernel.\<close>

datatype error = BUG

definition EIO :: int where
  "EIO = 5"

definition ENOMEM :: int where
  "ENOMEM = 12"

text \<open>Reading \<open>len\<close> bytes at offset \<open>off\<close> of a region, and writing a byte string there.\<close>

definition mem_read :: "bytes \<Rightarrow> nat \<Rightarrow> nat \<Rightarrow> bytes" where
  "mem_read mem off len = take len (drop off mem)"

definition mem_write :: "bytes \<Rightarrow> nat \<Rightarrow> bytes \<Rightarrow> bytes" where
  "mem_write mem off bs =
     take off (mem @ replicate (off - length mem) 0) @ bs @ drop (off + length bs) mem"

text \<open>
  Modelled from the spec: the byte-order helpers \<^verbatim>\<open>cpu_to_le32\<close> and \<^verbatim>\<open>le32_to_cpup\<close>
  are kernel macros that are not under src/; the spec calls the zstd prefix a
  "4-byte little-endian length". \<open>cpu_to_le32\<close> keeps the low 32 bits of its argument.
\<close>

definition cpu_to_le32 :: "nat \<Rightarrow> bytes" where
  "cpu_to_le32 n =
     [word_of_nat n, word_of_nat (n div 256), word_of_nat (n div 65536),
      word_of_nat (n div 16777216)]"

definition le32_to_cpup :: "bytes \<Rightarrow> nat" where
  "le32_to_cpup p = foldr (\<lambda>b acc. unat b + 256 * acc) (take 4 p) 0"

subsection \<open>Filesystem, buffers and extent metadata\<close>

datatype bch_compression_type =
    BCH_COMPRESSION_NONE
  | BCH_COMPRESSION_LZ4_OLD
  | BCH_COMPRESSION_GZIP
  | BCH_COMPRESSION_LZ4
  | BCH_COMPRESSION_ZSTD
  | BCH_COMPRESSION_INVALID nat

text \<open>
  \<open>BCH_COMPRESSION_INVALID n\<close> stands for an id at or above \<^verbatim>\<open>BCH_COMPRESSION_NR\<close>;
  \<open>BCH_COMPRESSION_NONE\<close> is the id 0 that the code returns for incompressible data.
\<close>

datatype rw_dir = READ | WRITE

text \<open>
  The fields of \<^verbatim>\<open>struct bch_fs\<close> that compress.c reads or writes. Sizes are in
  512-byte sectors, as on disk. A pool field says whether \<^verbatim>\<open>mempool_initialized\<close> holds.
\<close>

record bch_fs =
  encoded_extent_max :: nat
  block_size :: nat
  sb_features :: "64 word"
  disk_sb_features :: "64 word"
  compression_bounce :: "rw_dir \<Rightarrow> bool"
  compress_workspace :: "bch_compression_type \<Rightarrow> bool"
  decompress_workspace :: bool

text \<open>
  A \<^verbatim>\<open>struct bio\<close>: the length of its iterator and the bytes of its pages from the
  iterator's start on (they may go on after \<open>bi_size\<close>: those bytes are memory that
  does not belong to the request). The iteration macros \<^verbatim>\<open>__bio_for_each_bvec\<close> and
  \<^verbatim>\<open>__bio_for_each_segment\<close> are not under src/; what they yield for an iterator of
  length \<open>n\<close> is part of the bio: \<open>bi_bvecs bio n\<close> is the \<^verbatim>\<open>bv_len\<close> of each fragment, and
  \<open>bi_segments bio n\<close> the \<^verbatim>\<open>(bv_offset, bv_len)\<close> of each single-page segment.
\<close>

record bio =
  bi_size :: nat
  bi_data :: bytes
  bi_bvecs :: "nat \<Rightarrow> nat list"
  bi_segments :: "nat \<Rightarrow> (nat \<times> nat) list"
  bi_vcnt :: nat
  bi_max_vecs :: nat

record bch_extent_crc_unpacked =
  csum_type :: nat
  compression_type :: bch_compression_type
  compressed_size :: nat
  uncompressed_size :: nat
  offset :: nat
  live_size :: nat
  csum :: "64 word \<times> 64 word"

text \<open>
  What the surrounding kernel decides: which allocations succeed (\<open>kmalloc_array_ok n\<close>
  is the allocation of an array of \<open>n\<close> page pointers, line 89), what fresh memory
  holds, whether it is built with \<^verbatim>\<open>CONFIG_HIGHMEM\<close>, and the page size in bytes and in
  sectors.
\<close>

record env =
  kmalloc_ok :: "nat \<Rightarrow> bool"
  mempool_nowait_ok :: "rw_dir \<Rightarrow> bool"
  vmalloc_ok :: "nat \<Rightarrow> bool"
  mempool_noio_ok :: "rw_dir \<Rightarrow> bool"
  kmalloc_array_ok :: "nat \<Rightarrow> bool"
  vmap_ok :: bool
  fresh :: "nat \<Rightarrow> bytes"
  CONFIG_HIGHMEM :: bool
  PAGE_SIZE :: nat
  PAGE_SECTORS :: nat

text \<open>
  The codecs are external libraries. Each entry takes the bytes it is handed and the
  room it may fill, and gives back what it wrote.

  \<^item> \<open>LZ4_decompress_safe_partial src room\<close>: \<open>None\<close> for a negative return, \<open>Some out\<close>
    when it decoded \<open>out\<close> and returned its length.
  \<^item> \<open>zlib_inflate src room\<close>: the status of \<^verbatim>\<open>zlib_inflate(&strm, Z_FINISH)\<close> and the
    output produced.
  \<^item> \<open>ZSTD_decompressDCtx src room\<close>: \<open>None\<close> for an error code (a \<^verbatim>\<open>size_t\<close> above every
    buffer length), \<open>Some out\<close> when it decoded \<open>out\<close> and returned its length.
  \<^item> \<open>LZ4_compress_destSize src room\<close>: the number of source bytes consumed (the
    updated \<^verbatim>\<open>len\<close>) and the output, whose length is the return value.
  \<^item> \<open>zlib_deflate src room\<close>: the status of \<^verbatim>\<open>zlib_deflate(&strm, Z_FINISH)\<close> and the
    output (\<^verbatim>\<open>total_out\<close> is its length); \<open>zlib_deflateEnd src room\<close>: the status of the
    \<^verbatim>\<open>zlib_deflateEnd\<close> that follows.
  \<^item> \<open>ZSTD_compressCCtx src room\<close>: whether \<^verbatim>\<open>ZSTD_isError\<close> holds of the return
    value, and the bytes written (the frame, whose length is the return value, when there
    is no error).

  What an LZ4 or zstd decoder has written when it reports an error is not modelled: the
  callers give the destination up.
\<close>

datatype z_status = Z_OK | Z_STREAM_END | Z_FAILURE int

record codecs =
  LZ4_decompress_safe_partial :: "bytes \<Rightarrow> nat \<Rightarrow> bytes option"
  zlib_inflate :: "bytes \<Rightarrow> nat \<Rightarrow> z_status \<times> bytes"
  ZSTD_decompressDCtx :: "bytes \<Rightarrow> nat \<Rightarrow> bytes option"
  LZ4_compress_destSize :: "bytes \<Rightarrow> nat \<Rightarrow> nat \<times> bytes"
  zlib_deflate :: "bytes \<Rightarrow> nat \<Rightarrow> z_status \<times> bytes"
  zlib_deflateEnd :: "bytes \<Rightarrow> nat \<Rightarrow> z_status"
  ZSTD_compressCCtx :: "bytes \<Rightarrow> nat \<Rightarrow> bool \<times> bytes"

subsection \<open>Bounce buffers (lines 13-140)\<close>

datatype bbuf_type = BB_NONE | BB_VMAP | BB_KMALLOC | BB_VMALLOC | BB_MEMPOOL

record bbuf =
  b :: bytes
  type :: bbuf_type
  rw :: rw_dir

definition uu_bounce_alloc :: "env \<Rightarrow> bch_fs \<Rightarrow> nat \<Rightarrow> rw_dir \<Rightarrow> error + bbuf" where
  "uu_bounce_alloc e c sz d =
     (if sz > encoded_extent_max c * 512 then Inl BUG
      else if kmalloc_ok e sz
        then Inr \<lparr>b = fresh e sz, type = BB_KMALLOC, rw = d\<rparr>
      else if mempool_nowait_ok e d
        then Inr \<lparr>b = fresh e sz, type = BB_MEMPOOL, rw = d\<rparr>
      else if vmalloc_ok e sz
        then Inr \<lparr>b = fresh e sz, type = BB_VMALLOC, rw = d\<rparr>
      else if mempool_noio_ok e d
        then Inr \<lparr>b = fresh e sz, type = BB_MEMPOOL, rw = d\<rparr>
      else Inl BUG)"

text \<open>
  \<^verbatim>\<open>memcpy_from_bio\<close> and \<^verbatim>\<open>memcpy_to_bio\<close> copy \<open>n\<close> bytes (the length of the iterator)
  between a buffer and the pages of a bio.
\<close>

definition memcpy_from_bio :: "bytes \<Rightarrow> bio \<Rightarrow> nat \<Rightarrow> bytes" where
  "memcpy_from_bio buf bio n = mem_write buf 0 (mem_read (bi_data bio) 0 n)"

definition memcpy_to_bio :: "bio \<Rightarrow> nat \<Rightarrow> bytes \<Rightarrow> bio" where
  "memcpy_to_bio bio n buf = bio\<lparr>bi_data := mem_write (bi_data bio) 0 (mem_read buf 0 n)\<rparr>"

definition bounce :: "env \<Rightarrow> bch_fs \<Rightarrow> bio \<Rightarrow> nat \<Rightarrow> rw_dir \<Rightarrow> error + bbuf" where
  "bounce e c bio start d =
     (case uu_bounce_alloc e c start d of
        Inl x \<Rightarrow> Inl x
      | Inr ret \<Rightarrow>
          Inr (if d = READ then ret\<lparr>b := memcpy_from_bio (b ret) bio start\<rparr> else ret))"

text \<open>
  Modelled from the spec: \<^verbatim>\<open>DIV_ROUND_UP\<close> is a kernel macro that is not under src/;
  it is the quotient rounded up.
\<close>

definition DIV_ROUND_UP :: "nat \<Rightarrow> nat \<Rightarrow> nat" where
  "DIV_ROUND_UP n d = (n + d - 1) div d"

text \<open>
  The loop of lines 77-84 over the segments: \<open>None\<close> is the jump to \<^verbatim>\<open>bounce\<close>, \<open>Some n\<close>
  the number of pages counted. \<^verbatim>\<open>first\<close> is set to true at line 62 and is not assigned
  again.
\<close>

fun count_pages :: "bool \<Rightarrow> nat \<Rightarrow> nat \<Rightarrow> nat \<Rightarrow> (nat \<times> nat) list \<Rightarrow> nat option" where
  "count_pages first page_size prev_end nr_pages [] = Some nr_pages"
| "count_pages first page_size prev_end nr_pages ((bv_offset, bv_len) # segs) =
     (if (\<not> first \<and> bv_offset \<noteq> 0) \<or> prev_end \<noteq> page_size then None
      else count_pages first page_size (bv_offset + bv_len) (nr_pages + 1) segs)"

text \<open>
  \<^verbatim>\<open>__bio_map_or_bounce\<close>: the zero-copy return of lines 69-75 (compiled in without
  \<^verbatim>\<open>CONFIG_HIGHMEM\<close>), the page count of lines 77-84, the assertion of line 86, the
  array of page pointers of lines 88-92 (on the stack up to 16 pages, allocated above),
  the virtual mapping of lines 98-106, and the bounce buffer of lines 107-113.
\<close>

definition uu_bio_map_or_bounce :: "env \<Rightarrow> bch_fs \<Rightarrow> bio \<Rightarrow> nat \<Rightarrow> rw_dir \<Rightarrow> error + bbuf" where
  "uu_bio_map_or_bounce e c bio start d =
     (if start div 512 > encoded_extent_max c then Inl BUG
      else if \<not> CONFIG_HIGHMEM e \<and> list_ex (\<lambda>bv_len. bv_len = start) (bi_bvecs bio start)
        then Inr \<lparr>b = bi_data bio, type = BB_NONE, rw = d\<rparr>
      else case count_pages True (PAGE_SIZE e) (PAGE_SIZE e) 0 (bi_segments bio start) of
          None \<Rightarrow> bounce e c bio start d
        | Some nr_pages \<Rightarrow>
            if DIV_ROUND_UP start (PAGE_SIZE e) > nr_pages then Inl BUG
            else if nr_pages > 16 \<and> \<not> kmalloc_array_ok e nr_pages
              then bounce e c bio start d
            else if vmap_ok e then Inr \<lparr>b = bi_data bio, type = BB_VMAP, rw = d\<rparr>
            else bounce e c bio start d)"

definition bio_map_or_bounce :: "env \<Rightarrow> bch_fs \<Rightarrow> bio \<Rightarrow> rw_dir \<Rightarrow> error + bbuf" where
  "bio_map_or_bounce e c bio d = uu_bio_map_or_bounce e c bio (bi_size bio) d"

text \<open>
  A buffer of type \<open>BB_NONE\<close> or \<open>BB_VMAP\<close> is the memory of the bio itself: what a codec
  writes through it is in the bio at once. \<open>through\<close> gives the bio as it is after the
  buffer holds \<open>buf\<close>.
\<close>

definition through :: "bio \<Rightarrow> bbuf_type \<Rightarrow> bytes \<Rightarrow> bio" where
  "through bio ty buf =
     (if ty = BB_NONE \<or> ty = BB_VMAP then bio\<lparr>bi_data := buf\<rparr> else bio)"

subsection \<open>Decompression (lines 149-287)\<close>

text \<open>
  The result of \<^verbatim>\<open>__bio_uncompress\<close>: the return value, the destination memory, the
  number of bytes the decoder put there, and the ranges \<open>(offset, length)\<close> of the mapped
  source that were read or handed to a decoder to read.
\<close>

record uncompressed =
  u_ret :: int
  u_dst :: bytes
  u_written :: nat
  u_reads :: "(nat \<times> nat) list"

definition uu_bio_uncompress ::
  "codecs \<Rightarrow> env \<Rightarrow> bch_fs \<Rightarrow> bio \<Rightarrow> bytes \<Rightarrow> 'a bch_extent_crc_unpacked_scheme
     \<Rightarrow> error + uncompressed" where
  "uu_bio_uncompress cd e c src dst_data crc =
     (let src_len = bi_size src;
          dst_len = uncompressed_size crc * 512
      in case bio_map_or_bounce e c src READ of
          Inl x \<Rightarrow> Inl x
        | Inr src_data \<Rightarrow>
           (if compression_type crc = BCH_COMPRESSION_LZ4_OLD
               \<or> compression_type crc = BCH_COMPRESSION_LZ4 then
              (case LZ4_decompress_safe_partial cd (mem_read (b src_data) 0 src_len) dst_len of
                 None \<Rightarrow>
                   Inr \<lparr>u_ret = - EIO, u_dst = dst_data, u_written = 0,
                        u_reads = [(0, src_len)]\<rparr>
               | Some out \<Rightarrow>
                   Inr \<lparr>u_ret = (if length out \<noteq> dst_len then - EIO else 0),
                        u_dst = mem_write dst_data 0 out, u_written = length out,
                        u_reads = [(0, src_len)]\<rparr>)
            else if compression_type crc = BCH_COMPRESSION_GZIP then
              (case zlib_inflate cd (mem_read (b src_data) 0 src_len) dst_len of
                 (ret, out) \<Rightarrow>
                   Inr \<lparr>u_ret = (if ret \<noteq> Z_STREAM_END then - EIO else 0),
                        u_dst = mem_write dst_data 0 out, u_written = length out,
                        u_reads = [(0, src_len)]\<rparr>)
            else if compression_type crc = BCH_COMPRESSION_ZSTD then
              (let src_len = le32_to_cpup (mem_read (b src_data) 0 4)
               in case ZSTD_decompressDCtx cd (mem_read (b src_data) 4 src_len) dst_len of
                 None \<Rightarrow>
                   Inr \<lparr>u_ret = - EIO, u_dst = dst_data, u_written = 0,
                        u_reads = [(0, 4), (4, src_len)]\<rparr>
               | Some out \<Rightarrow>
                   Inr \<lparr>u_ret = (if length out \<noteq> dst_len then - EIO else 0),
                        u_dst = mem_write dst_data 0 out, u_written = length out,
                        u_reads = [(0, 4), (4, src_len)]\<rparr>)
            else Inl BUG))"

text \<open>
  \<^verbatim>\<open>bch2_bio_uncompress_inplace\<close> returns its value, the bio and the metadata behind
  \<^verbatim>\<open>crc\<close> as they are left.
\<close>

definition bch2_bio_uncompress_inplace ::
  "codecs \<Rightarrow> env \<Rightarrow> bch_fs \<Rightarrow> bio \<Rightarrow> 'a bch_extent_crc_unpacked_scheme
     \<Rightarrow> error + int \<times> bio \<times> 'a bch_extent_crc_unpacked_scheme" where
  "bch2_bio_uncompress_inplace cd e c bio crc =
     (let dst_len = uncompressed_size crc * 512
      in if bi_vcnt bio = 0 then Inl BUG
         else if DIV_ROUND_UP (live_size crc) (PAGE_SECTORS e) > bi_max_vecs bio then Inl BUG
         else if uncompressed_size crc > encoded_extent_max c
                 \<or> compressed_size crc > encoded_extent_max c
           then Inr (- EIO, bio, crc)
         else case uu_bounce_alloc e c dst_len WRITE of
             Inl x \<Rightarrow> Inl x
           | Inr data \<Rightarrow>
              (case uu_bio_uncompress cd e c bio (b data) crc of
                 Inl x \<Rightarrow> Inl x
               | Inr u \<Rightarrow>
                   if u_ret u \<noteq> 0 then Inr (- EIO, bio, crc)
                   else
                     let bio1 = bio\<lparr>bi_size := live_size crc * 512\<rparr>;
                         bio2 = memcpy_to_bio bio1 (bi_size bio1)
                                  (drop (offset crc * 512) (u_dst u))
                     in Inr (0, bio2,
                             crc\<lparr>csum_type := 0,
                                 compression_type := BCH_COMPRESSION_NONE,
                                 compressed_size := live_size crc,
                                 uncompressed_size := live_size crc,
                                 offset := 0,
                                 csum := (0, 0)\<rparr>)))"

text \<open>
  \<^verbatim>\<open>bch2_bio_uncompress\<close> returns its value, the destination bio, and the source ranges
  read (none when the sizes are refused before any decoding).
\<close>

definition bch2_bio_uncompress ::
  "codecs \<Rightarrow> env \<Rightarrow> bch_fs \<Rightarrow> bio \<Rightarrow> bio \<Rightarrow> nat \<Rightarrow> 'a bch_extent_crc_unpacked_scheme
     \<Rightarrow> error + int \<times> bio \<times> (nat \<times> nat) list" where
  "bch2_bio_uncompress cd e c src dst dst_iter crc =
     (let dst_len = uncompressed_size crc * 512
      in if uncompressed_size crc > encoded_extent_max c
            \<or> compressed_size crc > encoded_extent_max c
           then Inr (- EIO, dst, [])
         else case (if dst_len = dst_iter then uu_bio_map_or_bounce e c dst dst_iter WRITE
                    else uu_bounce_alloc e c dst_len WRITE) of
             Inl x \<Rightarrow> Inl x
           | Inr dst_data \<Rightarrow>
              (case uu_bio_uncompress cd e c src (b dst_data) crc of
                 Inl x \<Rightarrow> Inl x
               | Inr u \<Rightarrow>
                   if u_ret u \<noteq> 0
                     then Inr (u_ret u, through dst (type dst_data) (u_dst u), u_reads u)
                   else if type dst_data \<noteq> BB_NONE
                     then Inr (0, memcpy_to_bio (through dst (type dst_data) (u_dst u)) dst_iter
                                    (drop (offset crc * 512) (u_dst u)),
                               u_reads u)
                   else Inr (0, through dst (type dst_data) (u_dst u), u_reads u)))"

subsection \<open>Compression (lines 289-464)\<close>

text \<open>
  Modelled from the spec: \<^verbatim>\<open>block_bytes\<close>, \<^verbatim>\<open>bio_sectors\<close>, \<^verbatim>\<open>round_up\<close> and
  \<^verbatim>\<open>round_down\<close> are macros that are not under src/. The spec measures the block size
  in 512-byte sectors, a power of two, and rounds lengths "down to the block size" and
  "to the next block multiple".
\<close>

definition block_bytes :: "bch_fs \<Rightarrow> nat" where
  "block_bytes c = block_size c * 512"

definition bio_sectors :: "bio \<Rightarrow> nat" where
  "bio_sectors bio = bi_size bio div 512"

definition round_down :: "nat \<Rightarrow> nat \<Rightarrow> nat" where
  "round_down x y = x - x mod y"

definition round_up :: "nat \<Rightarrow> nat \<Rightarrow> nat" where
  "round_up x y = (x + y - 1) div y * y"

text \<open>
  \<^verbatim>\<open>attempt_compress\<close> returns its \<^verbatim>\<open>int\<close> and the destination memory as the codec
  leaves it. In the zstd branch the codec writes at \<^verbatim>\<open>dst + 4\<close> with room
  \<^verbatim>\<open>dst_len - 4\<close>, a \<^verbatim>\<open>size_t\<close> subtraction.
\<close>

definition attempt_compress ::
  "codecs \<Rightarrow> bytes \<Rightarrow> nat \<Rightarrow> bytes \<Rightarrow> nat \<Rightarrow> bch_compression_type
     \<Rightarrow> error + int \<times> bytes" where
  "attempt_compress cd dst dst_len src src_len ctype =
     (case ctype of
        BCH_COMPRESSION_LZ4 \<Rightarrow>
          (case LZ4_compress_destSize cd (mem_read src 0 src_len) dst_len of
             (len, out) \<Rightarrow>
               if len < src_len then Inr (- int len, mem_write dst 0 out)
               else Inr (int (length out), mem_write dst 0 out))
      | BCH_COMPRESSION_GZIP \<Rightarrow>
          (case zlib_deflate cd (mem_read src 0 src_len) dst_len of
             (st, out) \<Rightarrow>
               if st \<noteq> Z_STREAM_END then Inr (0, mem_write dst 0 out)
               else if zlib_deflateEnd cd (mem_read src 0 src_len) dst_len \<noteq> Z_OK
                 then Inr (0, mem_write dst 0 out)
               else Inr (int (length out), mem_write dst 0 out))
      | BCH_COMPRESSION_ZSTD \<Rightarrow>
          (case ZSTD_compressCCtx cd (mem_read src 0 src_len)
                  ((dst_len + 2 ^ 64 - 4) mod 2 ^ 64) of
             (is_error, out) \<Rightarrow>
               if is_error then Inr (0, mem_write dst 4 out)
               else Inr (int (length out) + 4,
                         mem_write (mem_write dst 4 out) 0 (cpu_to_le32 (length out))))
      | _ \<Rightarrow> Inl BUG)"

text \<open>
  The \<^verbatim>\<open>while (1)\<close> loop of \<^verbatim>\<open>__bio_compress\<close> (lines 377-409). Its state is the
  destination memory, \<^verbatim>\<open>*dst_len\<close> and \<^verbatim>\<open>*src_len\<close>; \<open>tr\<close> collects one entry
  \<open>(*dst_len, *src_len, ret)\<close> for each call of \<^verbatim>\<open>attempt_compress\<close>. The C loop has no
  bound, so the function is partial: \<open>None\<close> says that the loop never leaves.
\<close>

record searched =
  s_ret :: int
  s_dst :: bytes
  s_dst_len :: nat
  s_src_len :: nat
  s_attempts :: "(nat \<times> nat \<times> int) list"

partial_function (option) compress_loop ::
  "codecs \<Rightarrow> bch_fs \<Rightarrow> bch_compression_type \<Rightarrow> bytes \<Rightarrow> bytes \<Rightarrow> nat \<Rightarrow> nat
     \<Rightarrow> (nat \<times> nat \<times> int) list \<Rightarrow> (error + searched) option" where
  "compress_loop cd c ctype src dst dst_len src_len tr =
     (if src_len \<le> block_bytes c
        then Some (Inr \<lparr>s_ret = - 1, s_dst = dst, s_dst_len = dst_len, s_src_len = src_len,
                        s_attempts = tr\<rparr>)
      else case attempt_compress cd dst dst_len src src_len ctype of
          Inl x \<Rightarrow> Some (Inl x)
        | Inr (ret, dst') \<Rightarrow>
            if ret > 0
              then Some (Inr \<lparr>s_ret = 0, s_dst = dst', s_dst_len = nat ret,
                              s_src_len = src_len,
                              s_attempts = tr @ [(dst_len, src_len, ret)]\<rparr>)
            else if src_len \<le> dst_len
              then Some (Inr \<lparr>s_ret = - 1, s_dst = dst', s_dst_len = dst_len,
                              s_src_len = src_len,
                              s_attempts = tr @ [(dst_len, src_len, ret)]\<rparr>)
            else if nat (- ret) \<ge> src_len then Some (Inl BUG)
            else compress_loop cd c ctype src dst' dst_len
                   (round_down (if ret < 0 then nat (- ret)
                                else src_len - (src_len - dst_len) div 2)
                      (block_bytes c))
                   (tr @ [(dst_len, src_len, ret)]))"

text \<open>
  The result of \<^verbatim>\<open>__bio_compress\<close> and of \<^verbatim>\<open>bch2_bio_compress\<close>: the returned codec
  id, the values left in \<^verbatim>\<open>*dst_len\<close> and \<^verbatim>\<open>*src_len\<close>, both bios, and the calls of
  \<^verbatim>\<open>attempt_compress\<close> that were made.
\<close>

record compressed =
  c_type :: bch_compression_type
  c_dst_len :: nat
  c_src_len :: nat
  c_dst :: bio
  c_src :: bio
  c_attempts :: "(nat \<times> nat \<times> int) list"

text \<open>
  Line 420: \<^verbatim>\<open>pad\<close> is an \<^verbatim>\<open>unsigned\<close> that takes the difference of two \<^verbatim>\<open>size_t\<close>.
  Lines 430-431: the mask \<^verbatim>\<open>block_bytes(c) - 1\<close> as the \<^verbatim>\<open>size_t\<close> it is converted to.
\<close>

definition pad :: "bch_fs \<Rightarrow> nat \<Rightarrow> nat" where
  "pad c dst_len = (round_up dst_len (block_bytes c) + 2 ^ 64 - dst_len) mod 2 ^ 32"

definition block_mask :: "bch_fs \<Rightarrow> nat" where
  "block_mask c = (block_bytes c + 2 ^ 64 - 1) mod 2 ^ 64"

text \<open>Lines 411-439: what \<^verbatim>\<open>__bio_compress\<close> does with the outcome of the loop.\<close>

definition compress_finish ::
  "bch_fs \<Rightarrow> bio \<Rightarrow> bio \<Rightarrow> bbuf_type \<Rightarrow> bch_compression_type \<Rightarrow> searched
     \<Rightarrow> error + compressed" where
  "compress_finish c dst src dst_type ctype s =
     (let err = Inr \<lparr>c_type = BCH_COMPRESSION_NONE, c_dst_len = s_dst_len s,
                     c_src_len = s_src_len s, c_dst = through dst dst_type (s_dst s),
                     c_src = src, c_attempts = s_attempts s\<rparr>
      in if s_ret s \<noteq> 0 then err
         else if round_up (s_dst_len s) (block_bytes c) \<ge> s_src_len s then err
         else
           let dst_data = mem_write (s_dst s) (s_dst_len s)
                            (replicate (pad c (s_dst_len s)) 0);
               dst_len = s_dst_len s + pad c (s_dst_len s);
               dst' = (if dst_type \<noteq> BB_NONE
                       then memcpy_to_bio (through dst dst_type dst_data) (bi_size dst) dst_data
                       else through dst dst_type dst_data)
           in if dst_len = 0 \<or> dst_len > bi_size dst then Inl BUG
              else if s_src_len s = 0 \<or> s_src_len s > bi_size src then Inl BUG
              else if dst_len AND block_mask c \<noteq> 0 then Inl BUG
              else if s_src_len s AND block_mask c \<noteq> 0 then Inl BUG
              else Inr \<lparr>c_type = ctype, c_dst_len = dst_len, c_src_len = s_src_len s,
                        c_dst = dst', c_src = src, c_attempts = s_attempts s\<rparr>)"

text \<open>
  \<^verbatim>\<open>__bio_compress\<close>. \<open>dst_len0\<close> and \<open>src_len0\<close> are what \<^verbatim>\<open>*dst_len\<close> and \<^verbatim>\<open>*src_len\<close>
  hold at the call: the early return of line 363 leaves them as they are.
\<close>

definition uu_bio_compress ::
  "codecs \<Rightarrow> env \<Rightarrow> bch_fs \<Rightarrow> bio \<Rightarrow> nat \<Rightarrow> bio \<Rightarrow> nat \<Rightarrow> bch_compression_type
     \<Rightarrow> (error + compressed) option" where
  "uu_bio_compress cd e c dst dst_len0 src src_len0 ctype =
     (if (case ctype of BCH_COMPRESSION_INVALID n \<Rightarrow> True | _ \<Rightarrow> False) then Some (Inl BUG)
      else if \<not> compress_workspace c ctype then Some (Inl BUG)
      else if bio_sectors src \<le> block_size c
        then Some (Inr \<lparr>c_type = BCH_COMPRESSION_NONE, c_dst_len = dst_len0,
                        c_src_len = src_len0, c_dst = dst, c_src = src, c_attempts = []\<rparr>)
      else case bio_map_or_bounce e c dst WRITE of
          Inl x \<Rightarrow> Some (Inl x)
        | Inr dst_data \<Rightarrow>
           (case bio_map_or_bounce e c src READ of
              Inl x \<Rightarrow> Some (Inl x)
            | Inr src_data \<Rightarrow>
               (case compress_loop cd c ctype (b src_data) (b dst_data)
                       (bi_size dst) (bi_size src) [] of
                  None \<Rightarrow> None
                | Some (Inl x) \<Rightarrow> Some (Inl x)
                | Some (Inr s) \<Rightarrow>
                    Some (compress_finish c dst src (type dst_data) ctype s))))"

definition bch2_bio_compress ::
  "codecs \<Rightarrow> env \<Rightarrow> bch_fs \<Rightarrow> bio \<Rightarrow> nat \<Rightarrow> bio \<Rightarrow> nat \<Rightarrow> bch_compression_type
     \<Rightarrow> (error + compressed) option" where
  "bch2_bio_compress cd e c dst dst_len0 src src_len0 ctype =
     (let orig_dst = bi_size dst;
          orig_src = bi_size src;
          src1 = src\<lparr>bi_size := min (bi_size src) (encoded_extent_max c * 512)\<rparr>;
          dst1 = dst\<lparr>bi_size := min (bi_size dst) (bi_size src1)\<rparr>;
          ctype1 = (if ctype = BCH_COMPRESSION_LZ4_OLD then BCH_COMPRESSION_LZ4 else ctype)
      in case uu_bio_compress cd e c dst1 dst_len0 src1 src_len0 ctype1 of
          None \<Rightarrow> None
        | Some (Inl x) \<Rightarrow> Some (Inl x)
        | Some (Inr r) \<Rightarrow>
            Some (Inr (r\<lparr>c_dst := (c_dst r)\<lparr>bi_size := orig_dst\<rparr>,
                         c_src := (c_src r)\<lparr>bi_size := orig_src\<rparr>\<rparr>)))"

subsection \<open>Pools and the feature bits (lines 466-609)\<close>

text \<open>
  The numbers of the feature bits (\<^verbatim>\<open>enum bch_sb_features\<close>) and of the compression
  options are declared in a header that is not under src/: the bit numbers are
  parameters, and the options are the entries of \<^verbatim>\<open>BCH_COMPRESSION_TYPES()\<close> that lines
  540-546 name. \<open>BCH_COMPRESSION_OPT_INVALID n\<close> stands for a number at or above the size
  of the table of line 470.
\<close>

record bch_sb_features =
  BCH_FEATURE_LZ4 :: nat
  BCH_FEATURE_GZIP :: nat
  BCH_FEATURE_ZSTD :: nat

datatype bch_compression_opt =
    BCH_COMPRESSION_OPT_NONE
  | BCH_COMPRESSION_OPT_LZ4
  | BCH_COMPRESSION_OPT_GZIP
  | BCH_COMPRESSION_OPT_ZSTD
  | BCH_COMPRESSION_OPT_INVALID nat

fun bch2_compression_opt_to_feature :: "bch_sb_features \<Rightarrow> bch_compression_opt \<Rightarrow> nat" where
  "bch2_compression_opt_to_feature ft BCH_COMPRESSION_OPT_NONE = 0"
| "bch2_compression_opt_to_feature ft BCH_COMPRESSION_OPT_LZ4 = BCH_FEATURE_LZ4 ft"
| "bch2_compression_opt_to_feature ft BCH_COMPRESSION_OPT_GZIP = BCH_FEATURE_GZIP ft"
| "bch2_compression_opt_to_feature ft BCH_COMPRESSION_OPT_ZSTD = BCH_FEATURE_ZSTD ft"
| "bch2_compression_opt_to_feature ft (BCH_COMPRESSION_OPT_INVALID n) = 0"

text \<open>
  What happens, in order: the configuration lock is taken and released, a pool is
  initialised (with the value \<^verbatim>\<open>mempool_init_*\<close> returned), the feature bits \<open>f\<close> are set
  in the superblock, the superblock is written (with what became of the write).
\<close>

datatype pool = POOL_BOUNCE rw_dir | POOL_COMPRESS bch_compression_type | POOL_DECOMPRESS

datatype event =
    EV_LOCK
  | EV_UNLOCK
  | EV_POOL_INIT pool int
  | EV_SET_FEATURE "64 word"
  | EV_WRITE_SUPER bool

text \<open>The table \<^verbatim>\<open>compression_types[]\<close> of lines 539-547: feature bit and codec id.\<close>

definition compression_types :: "bch_sb_features \<Rightarrow> (nat \<times> bch_compression_type) list" where
  "compression_types ft =
     [(BCH_FEATURE_LZ4 ft, BCH_COMPRESSION_LZ4),
      (BCH_FEATURE_GZIP ft, BCH_COMPRESSION_GZIP),
      (BCH_FEATURE_ZSTD ft, BCH_COMPRESSION_ZSTD)]"

text \<open>
  The loop of lines 577-597 over the table. \<open>mi p\<close> is what the initialisation of pool
  \<open>p\<close> returns: 0, or an error number. The test \<^verbatim>\<open>features & (1 << i->feature)\<close> shifts
  an \<^verbatim>\<open>int\<close>; for a bit number below 31 that is the 64-bit shift written here.
\<close>

fun init_workspaces ::
  "(pool \<Rightarrow> int) \<Rightarrow> 64 word \<Rightarrow> bch_fs \<Rightarrow> (nat \<times> bch_compression_type) list
     \<Rightarrow> int \<times> bch_fs \<times> event list" where
  "init_workspaces mi features c [] = (0, c, [])"
| "init_workspaces mi features c ((feature, ty) # rest) =
     (if features AND push_bit feature 1 = 0 then init_workspaces mi features c rest
      else if compress_workspace c ty then init_workspaces mi features c rest
      else if mi (POOL_COMPRESS ty) \<noteq> 0
        then (mi (POOL_COMPRESS ty), c, [EV_POOL_INIT (POOL_COMPRESS ty) (mi (POOL_COMPRESS ty))])
      else
        (case init_workspaces mi features
                (c\<lparr>compress_workspace := (compress_workspace c)(ty := True)\<rparr>) rest of
           (ret, c', evs) \<Rightarrow> (ret, c', EV_POOL_INIT (POOL_COMPRESS ty) 0 # evs)))"

text \<open>One \<^verbatim>\<open>if (!mempool_initialized(p)) { ret = mempool_init(p); if (ret) goto out; }\<close>.\<close>

definition init_bounce :: "(pool \<Rightarrow> int) \<Rightarrow> bch_fs \<Rightarrow> rw_dir \<Rightarrow> int \<times> bch_fs \<times> event list" where
  "init_bounce mi c d =
     (if compression_bounce c d then (0, c, [])
      else if mi (POOL_BOUNCE d) \<noteq> 0
        then (mi (POOL_BOUNCE d), c, [EV_POOL_INIT (POOL_BOUNCE d) (mi (POOL_BOUNCE d))])
      else (0, c\<lparr>compression_bounce := (compression_bounce c)(d := True)\<rparr>,
            [EV_POOL_INIT (POOL_BOUNCE d) 0]))"

definition init_decompress :: "(pool \<Rightarrow> int) \<Rightarrow> bch_fs \<Rightarrow> int \<times> bch_fs \<times> event list" where
  "init_decompress mi c =
     (if decompress_workspace c then (0, c, [])
      else if mi POOL_DECOMPRESS \<noteq> 0
        then (mi POOL_DECOMPRESS, c, [EV_POOL_INIT POOL_DECOMPRESS (mi POOL_DECOMPRESS)])
      else (0, c\<lparr>decompress_workspace := True\<rparr>, [EV_POOL_INIT POOL_DECOMPRESS 0]))"

definition uu_bch2_fs_compress_init ::
  "bch_sb_features \<Rightarrow> (pool \<Rightarrow> int) \<Rightarrow> bch_fs \<Rightarrow> 64 word \<Rightarrow> int \<times> bch_fs \<times> event list" where
  "uu_bch2_fs_compress_init ft mi c features =
     (if \<not> list_ex (\<lambda>i. features AND push_bit (fst i) 1 \<noteq> 0) (compression_types ft)
        then (0, c, [])
      else case init_bounce mi c READ of
        (ret1, c1, ev1) \<Rightarrow>
          if ret1 \<noteq> 0 then (ret1, c1, ev1)
          else case init_bounce mi c1 WRITE of
            (ret2, c2, ev2) \<Rightarrow>
              if ret2 \<noteq> 0 then (ret2, c2, ev1 @ ev2)
              else case init_workspaces mi features c2 (compression_types ft) of
                (ret3, c3, ev3) \<Rightarrow>
                  if ret3 \<noteq> 0 then (ret3, c3, ev1 @ ev2 @ ev3)
                  else case init_decompress mi c3 of
                    (ret4, c4, ev4) \<Rightarrow> (ret4, c4, ev1 @ ev2 @ ev3 @ ev4))"

text \<open>
  \<^verbatim>\<open>bch2_write_super\<close> is not under src/, and line 499 uses no value of it. What it
  does to the \<^verbatim>\<open>struct bch_fs\<close> is the parameter \<open>ws\<close>; whether the write reached the
  disk is the parameter \<open>flush_ok\<close>, which only the trace records.
\<close>

definition uu_bch2_check_set_has_compressed_data ::
  "bch_sb_features \<Rightarrow> (pool \<Rightarrow> int) \<Rightarrow> (bch_fs \<Rightarrow> bch_fs) \<Rightarrow> bool \<Rightarrow> bch_fs \<Rightarrow> 64 word
     \<Rightarrow> int \<times> bch_fs \<times> event list" where
  "uu_bch2_check_set_has_compressed_data ft mi ws flush_ok c f =
     (if sb_features c AND f = f then (0, c, [])
      else if sb_features c AND f = f then (0, c, [EV_LOCK, EV_UNLOCK])
      else case uu_bch2_fs_compress_init ft mi c (sb_features c OR f) of
        (ret, c1, evs) \<Rightarrow>
          if ret \<noteq> 0 then (ret, c1, [EV_LOCK] @ evs @ [EV_UNLOCK])
          else (0, ws (c1\<lparr>disk_sb_features := disk_sb_features c1 OR f\<rparr>),
                [EV_LOCK] @ evs @ [EV_SET_FEATURE f, EV_WRITE_SUPER flush_ok, EV_UNLOCK]))"

definition bch2_check_set_has_compressed_data ::
  "bch_sb_features \<Rightarrow> (pool \<Rightarrow> int) \<Rightarrow> (bch_fs \<Rightarrow> bch_fs) \<Rightarrow> bool \<Rightarrow> bch_fs
     \<Rightarrow> bch_compression_opt \<Rightarrow> error + int \<times> bch_fs \<times> event list" where
  "bch2_check_set_has_compressed_data ft mi ws flush_ok c opt =
     (case opt of
        BCH_COMPRESSION_OPT_INVALID n \<Rightarrow> Inl BUG
      | BCH_COMPRESSION_OPT_NONE \<Rightarrow> Inr (0, c, [])
      | _ \<Rightarrow> Inr (uu_bch2_check_set_has_compressed_data ft mi ws flush_ok c
                   (push_bit (bch2_compression_opt_to_feature ft opt) 1)))"

text \<open>
  The codec that the rows of \<^verbatim>\<open>compression_types[]\<close> pair with the feature bit of an
  option.
\<close>

fun opt_codec :: "bch_compression_opt \<Rightarrow> bch_compression_type" where
  "opt_codec BCH_COMPRESSION_OPT_LZ4 = BCH_COMPRESSION_LZ4"
| "opt_codec BCH_COMPRESSION_OPT_GZIP = BCH_COMPRESSION_GZIP"
| "opt_codec BCH_COMPRESSION_OPT_ZSTD = BCH_COMPRESSION_ZSTD"
| "opt_codec _ = BCH_COMPRESSION_NONE"

text \<open>
  A list of events that are all successful pool initialisations, and two filesystem
  states with the same feature bits.
\<close>

definition inits_ok :: "event list \<Rightarrow> bool" where
  "inits_ok evs \<longleftrightarrow>
     list_all (\<lambda>ev. case ev of EV_POOL_INIT p r \<Rightarrow> r = 0 | _ \<Rightarrow> False) evs"

definition same_sb :: "bch_fs \<Rightarrow> bch_fs \<Rightarrow> bool" where
  "same_sb c c' \<longleftrightarrow>
     sb_features c' = sb_features c \<and> disk_sb_features c' = disk_sb_features c"

subsection \<open>The shape of a search\<close>

text \<open>
  Lines 404-408: the source length of the attempt that follows a failed attempt \<open>a\<close>.
\<close>

definition next_len :: "bch_fs \<Rightarrow> nat \<times> nat \<times> int \<Rightarrow> nat" where
  "next_len c a =
     (case a of (dst_len, src_len, ret) \<Rightarrow>
        round_down (if ret < 0 then nat (- ret) else src_len - (src_len - dst_len) div 2)
          (block_bytes c))"

text \<open>
  A trace of attempts shrinks when each attempt after the first works on the length that
  lines 404-408 compute from the attempt before it, and that length is strictly smaller.
\<close>

fun shrinks :: "bch_fs \<Rightarrow> (nat \<times> nat \<times> int) list \<Rightarrow> bool" where
  "shrinks c (a # a' # rest) =
     (fst (snd a') = next_len c a \<and> fst (snd a') < fst (snd a) \<and> shrinks c (a' # rest))"
| "shrinks c [a] = True"
| "shrinks c [] = True"

text \<open>
  What holds when the loop is left with the state \<open>s\<close>, having been entered with
  \<open>dst_len\<close>, \<open>src_len\<close> and the trace \<open>tr\<close>.
\<close>

definition loop_post ::
  "bch_fs \<Rightarrow> nat \<Rightarrow> nat \<Rightarrow> (nat \<times> nat \<times> int) list \<Rightarrow> searched \<Rightarrow> bool" where
  "loop_post c dst_len src_len tr s \<longleftrightarrow>
     (s_ret s = 0 \<or> s_ret s = - 1)
   \<and> s_src_len s \<le> src_len
   \<and> (s_src_len s = src_len \<or> block_bytes c dvd s_src_len s)
   \<and> (s_ret s \<noteq> 0 \<longrightarrow> s_dst_len s = dst_len)
   \<and> (\<exists>new. s_attempts s = tr @ new
        \<and> list_all (\<lambda>a. fst a = dst_len \<and> fst (snd a) \<le> src_len
                        \<and> block_bytes c < fst (snd a)) new
        \<and> (new \<noteq> [] \<longrightarrow> fst (snd (hd new)) = src_len)
        \<and> (512 dvd dst_len \<longrightarrow> shrinks c new)
        \<and> (s_ret s = 0 \<longrightarrow>
              new \<noteq> [] \<and> last new = (dst_len, s_src_len s, int (s_dst_len s))
            \<and> 0 < s_dst_len s \<and> block_bytes c < s_src_len s))"

subsection \<open>Concrete inputs\<close>

text \<open>
  A filesystem with 128-sector extents and one-sector blocks whose pools exist, a kernel
  with 4096-byte pages and without \<^verbatim>\<open>CONFIG_HIGHMEM\<close> in which every allocation succeeds,
  and a buffer that is one contiguous fragment (of one segment for each page).
\<close>

definition fs0 :: bch_fs where
  "fs0 = \<lparr>encoded_extent_max = 128, block_size = 1, sb_features = 0, disk_sb_features = 0,
          compression_bounce = (\<lambda>_. True), compress_workspace = (\<lambda>_. True),
          decompress_workspace = True\<rparr>"

definition env0 :: env where
  "env0 = \<lparr>kmalloc_ok = (\<lambda>_. True), mempool_nowait_ok = (\<lambda>_. True),
           vmalloc_ok = (\<lambda>_. True), mempool_noio_ok = (\<lambda>_. True),
           kmalloc_array_ok = (\<lambda>_. True), vmap_ok = True,
           fresh = (\<lambda>n. replicate n 0), CONFIG_HIGHMEM = False, PAGE_SIZE = 4096,
           PAGE_SECTORS = 8\<rparr>"

definition mk_bio :: "nat \<Rightarrow> bytes \<Rightarrow> bio" where
  "mk_bio n data = \<lparr>bi_size = n, bi_data = data, bi_bvecs = (\<lambda>k. [k]),
                    bi_segments = (\<lambda>k. replicate (k div 4096) (0, 4096)
                                         @ (if k mod 4096 = 0 then [] else [(0, k mod 4096)])),
                    bi_vcnt = 1, bi_max_vecs = 256\<rparr>"

definition mk_crc :: "bch_compression_type \<Rightarrow> nat \<Rightarrow> nat \<Rightarrow> bch_extent_crc_unpacked" where
  "mk_crc t csize usize = \<lparr>csum_type = 1, compression_type = t, compressed_size = csize,
                           uncompressed_size = usize, offset = 0, live_size = usize,
                           csum = (17, 42)\<rparr>"

text \<open>
  Feature bits 0, 1 and 2, and a filesystem that has no compression feature and no pool
  yet.
\<close>

definition ft0 :: bch_sb_features where
  "ft0 = \<lparr>BCH_FEATURE_LZ4 = 0, BCH_FEATURE_GZIP = 1, BCH_FEATURE_ZSTD = 2\<rparr>"

definition fs_new :: bch_fs where
  "fs_new = \<lparr>encoded_extent_max = 128, block_size = 1, sb_features = 0,
             disk_sb_features = 0, compression_bounce = (\<lambda>_. False),
             compress_workspace = (\<lambda>_. False), decompress_workspace = False\<rparr>"

text \<open>
  Pool initialisations that all succeed, pool initialisations of which the one of the
  decompression workspace runs out of memory, and a superblock write that leaves the
  \<^verbatim>\<open>struct bch_fs\<close> as it is.
\<close>

definition mi_ok :: "pool \<Rightarrow> int" where
  "mi_ok p = 0"

definition mi_nomem :: "pool \<Rightarrow> int" where
  "mi_nomem p = (if p = POOL_DECOMPRESS then - ENOMEM else 0)"

definition ws_keep :: "bch_fs \<Rightarrow> bch_fs" where
  "ws_keep c = c"

text \<open>
  Stand-ins for the libraries. \<open>codecs_fill n\<close>: every decoder fills the room it is
  given and every compressor produces \<open>n\<close> bytes from the whole source. \<open>codecs_short\<close>: inflate
  reaches the end of its stream after one byte. \<open>codecs_fail\<close>: no decoder and no
  compressor succeeds.
\<close>

definition codecs_fill :: "nat \<Rightarrow> codecs" where
  "codecs_fill n =
     \<lparr>LZ4_decompress_safe_partial = (\<lambda>src room. Some (replicate room 0)),
      zlib_inflate = (\<lambda>src room. (Z_STREAM_END, replicate room 0)),
      ZSTD_decompressDCtx = (\<lambda>src room. Some (replicate room 0)),
      LZ4_compress_destSize = (\<lambda>src room. (length src, replicate n 7)),
      zlib_deflate = (\<lambda>src room. (Z_STREAM_END, replicate n 7)),
      zlib_deflateEnd = (\<lambda>src room. Z_OK),
      ZSTD_compressCCtx = (\<lambda>src room. (False, replicate n 7))\<rparr>"

definition codecs_short :: codecs where
  "codecs_short = (codecs_fill 10)\<lparr>zlib_inflate := (\<lambda>src room. (Z_STREAM_END, [65]))\<rparr>"

definition codecs_fail :: codecs where
  "codecs_fail =
     \<lparr>LZ4_decompress_safe_partial = (\<lambda>src room. None),
      zlib_inflate = (\<lambda>src room. (Z_FAILURE (- 3), [])),
      ZSTD_decompressDCtx = (\<lambda>src room. None),
      LZ4_compress_destSize = (\<lambda>src room. (0, [])),
      zlib_deflate = (\<lambda>src room. (Z_OK, [])),
      zlib_deflateEnd = (\<lambda>src room. Z_OK),
      ZSTD_compressCCtx = (\<lambda>src room. (True, []))\<rparr>"

text \<open>
  A zstd extent of one sector whose length prefix says 1000: the bytes E8 03 00 00, then
  508 bytes of payload. The 600 bytes that follow are memory after the end of the
  request.
\<close>

definition zstd_overlong :: bio where
  "zstd_overlong = mk_bio 512 ([232, 3, 0, 0] @ replicate 508 0 @ replicate 600 170)"

section \<open>The concrete inputs, evaluated\<close>

lemma fs0_simps [simp]:
  "encoded_extent_max fs0 = 128" "block_size fs0 = 1" "compress_workspace fs0 t"
  "block_bytes fs0 = 512"
  by (simp_all add: fs0_def block_bytes_def)

lemma mk_bio_simps [simp]:
  "bi_size (mk_bio n d) = n" "bi_data (mk_bio n d) = d" "bi_bvecs (mk_bio n d) k = [k]"
  "bi_vcnt (mk_bio n d) = 1" "bi_max_vecs (mk_bio n d) = 256"
  by (simp_all add: mk_bio_def)

lemma env0_simps [simp]:
  "kmalloc_ok env0 n" "vmap_ok env0" "fresh env0 n = replicate n 0" "PAGE_SECTORS env0 = 8"
  "\<not> CONFIG_HIGHMEM env0" "PAGE_SIZE env0 = 4096"
  by (simp_all add: env0_def)

lemma codecs_fill_simps [simp]:
  "LZ4_decompress_safe_partial (codecs_fill n) src room = Some (replicate room 0)"
  "zlib_inflate (codecs_fill n) src room = (Z_STREAM_END, replicate room 0)"
  "ZSTD_decompressDCtx (codecs_fill n) src room = Some (replicate room 0)"
  "LZ4_compress_destSize (codecs_fill n) src room = (length src, replicate n 7)"
  "zlib_deflate (codecs_fill n) src room = (Z_STREAM_END, replicate n 7)"
  "zlib_deflateEnd (codecs_fill n) src room = Z_OK"
  "ZSTD_compressCCtx (codecs_fill n) src room = (False, replicate n 7)"
  by (simp_all add: codecs_fill_def)

lemma map_mk_bio [simp]:
  "bio_map_or_bounce env0 fs0 (mk_bio n d) dir =
     (if 128 < n div 512 then Inl BUG else Inr \<lparr>b = d, type = BB_NONE, rw = dir\<rparr>)"
  by (simp add: bio_map_or_bounce_def uu_bio_map_or_bounce_def)

section \<open>Decompression\<close>

text \<open>
  For every zstd extent the range handed to the decoder starts at offset 4 and has the
  length that the first four bytes of the source spell, whatever the length of the source.
\<close>

lemma zstd_range_from_prefix:
  assumes "bio_map_or_bounce e c src READ = Inr sd"
    and "compression_type crc = BCH_COMPRESSION_ZSTD"
  shows "\<exists>u. uu_bio_uncompress cd e c src dst crc = Inr u
           \<and> u_reads u = [(0, 4), (4, le32_to_cpup (mem_read (b sd) 0 4))]"
  using assms
  by (auto simp: uu_bio_uncompress_def Let_def split: option.splits)

text \<open>
  C1. A zstd extent whose stored length prefix is larger than what is left of the source
  buffer should be refused with the I/O error, without a read after the end of the
  buffer. The code does not compare the prefix with the length of the source: for the
  one-sector extent \<open>zstd_overlong\<close>, whose prefix says 1000, the decoder is handed the
  range of 1000 bytes that starts at offset 4, which ends 492 bytes after the buffer, and
  the call succeeds when the decoder delivers the target length from it.
\<close>

theorem zstd_prefix_unchecked:
  "uu_bio_uncompress (codecs_fill 10) env0 fs0 zstd_overlong (replicate 512 255)
       (mk_crc BCH_COMPRESSION_ZSTD 1 1)
     = Inr \<lparr>u_ret = 0, u_dst = replicate 512 0, u_written = 512,
            u_reads = [(0, 4), (4, 1000)]\<rparr>
   \<and> bi_size zstd_overlong < 4 + 1000"
  by (simp add: uu_bio_uncompress_def bio_map_or_bounce_def uu_bio_map_or_bounce_def
      zstd_overlong_def mk_bio_def mk_crc_def fs0_def env0_def codecs_fill_def
      le32_to_cpup_def mem_read_def mem_write_def)

text \<open>
  What \<^verbatim>\<open>__bio_uncompress\<close> returns for a supported codec whose source can be mapped: 0
  or the one error \<open>- EIO\<close>. LZ4 and zstd give 0 exactly when the decoder produced the
  target length, and the destination then starts with those bytes. Deflate gives 0
  exactly when inflate reports the end of its stream, with whatever it produced in the
  destination.
\<close>

lemma uncompress_outcomes:
  assumes "bio_map_or_bounce e c src READ = Inr sd"
    and "compression_type crc \<in> {BCH_COMPRESSION_LZ4_OLD, BCH_COMPRESSION_LZ4,
           BCH_COMPRESSION_GZIP, BCH_COMPRESSION_ZSTD}"
  shows "\<exists>u. uu_bio_uncompress cd e c src dst crc = Inr u
     \<and> (u_ret u = 0 \<or> u_ret u = - EIO)
     \<and> (compression_type crc \<in> {BCH_COMPRESSION_LZ4_OLD, BCH_COMPRESSION_LZ4} \<longrightarrow>
          (u_ret u = 0 \<longleftrightarrow>
             (\<exists>out. LZ4_decompress_safe_partial cd (mem_read (b sd) 0 (bi_size src))
                      (uncompressed_size crc * 512) = Some out
                  \<and> length out = uncompressed_size crc * 512))
        \<and> (u_ret u = 0 \<longrightarrow>
             (\<exists>out. length out = uncompressed_size crc * 512
                  \<and> u_dst u = mem_write dst 0 out)))
     \<and> (compression_type crc = BCH_COMPRESSION_GZIP \<longrightarrow>
          (u_ret u = 0 \<longleftrightarrow>
             fst (zlib_inflate cd (mem_read (b sd) 0 (bi_size src)) (uncompressed_size crc * 512))
               = Z_STREAM_END)
        \<and> u_dst u = mem_write dst 0
             (snd (zlib_inflate cd (mem_read (b sd) 0 (bi_size src))
                (uncompressed_size crc * 512)))
        \<and> u_written u = length
             (snd (zlib_inflate cd (mem_read (b sd) 0 (bi_size src))
                (uncompressed_size crc * 512))))
     \<and> (compression_type crc = BCH_COMPRESSION_ZSTD \<longrightarrow>
          (u_ret u = 0 \<longleftrightarrow>
             (\<exists>out. ZSTD_decompressDCtx cd
                      (mem_read (b sd) 4 (le32_to_cpup (mem_read (b sd) 0 4)))
                      (uncompressed_size crc * 512) = Some out
                  \<and> length out = uncompressed_size crc * 512))
        \<and> (u_ret u = 0 \<longrightarrow>
             (\<exists>out. length out = uncompressed_size crc * 512
                  \<and> u_dst u = mem_write dst 0 out)))
     \<and> (compression_type crc \<noteq> BCH_COMPRESSION_GZIP \<longrightarrow> u_ret u = 0 \<longrightarrow>
          u_written u = uncompressed_size crc * 512)"
  using assms
  by (auto simp: uu_bio_uncompress_def Let_def EIO_def split: option.splits prod.splits)

text \<open>
  C3. Decompression should either fill the destination with exactly
  \<^verbatim>\<open>uncompressed_size\<close> bytes and return success, or return the I/O error. The LZ4 branch
  (line 165) and the zstd branch (line 203) compare the length produced with the target;
  the Deflate branch (line 184) only asks for the end of the stream. For a Deflate extent
  with a target of 512 bytes whose stream ends after one byte, \<^verbatim>\<open>__bio_uncompress\<close>
  returns 0 with one byte written: the other 511 bytes of the destination are what they
  were before the call.
\<close>

theorem inflate_short_accepted:
  "uu_bio_uncompress codecs_short env0 fs0 (mk_bio 512 (replicate 512 0)) (replicate 512 255)
       (mk_crc BCH_COMPRESSION_GZIP 1 1)
     = Inr \<lparr>u_ret = 0, u_dst = 65 # replicate 511 255, u_written = 1, u_reads = [(0, 512)]\<rparr>
   \<and> uncompressed_size (mk_crc BCH_COMPRESSION_GZIP 1 1) * 512 = 512"
  by (simp add: uu_bio_uncompress_def bio_map_or_bounce_def uu_bio_map_or_bounce_def
      mk_bio_def mk_crc_def fs0_def env0_def codecs_short_def codecs_fill_def
      mem_read_def mem_write_def)

text \<open>
  C10. When \<^verbatim>\<open>bch2_bio_uncompress_inplace\<close> returns, its value is 0 or \<open>- EIO\<close>. On
  \<open>- EIO\<close> the metadata behind \<^verbatim>\<open>crc\<close> is what it was; on 0 the six fields have been
  rewritten. Sizes above the extent limit and a failed decompression both give \<open>- EIO\<close>.
\<close>

theorem uncompress_inplace_crc:
  "(\<forall>ret bio' crc'. bch2_bio_uncompress_inplace cd e c bio crc = Inr (ret, bio', crc') \<longrightarrow>
       (ret = 0 \<or> ret = - EIO)
     \<and> (ret \<noteq> 0 \<longrightarrow> crc' = crc)
     \<and> (ret = 0 \<longrightarrow>
          crc' = crc\<lparr>csum_type := 0, compression_type := BCH_COMPRESSION_NONE,
                     compressed_size := live_size crc, uncompressed_size := live_size crc,
                     offset := 0, csum := (0, 0)\<rparr>))
   \<and> (bi_vcnt bio \<noteq> 0 \<and> DIV_ROUND_UP (live_size crc) (PAGE_SECTORS e) \<le> bi_max_vecs bio
        \<and> (uncompressed_size crc > encoded_extent_max c
              \<or> compressed_size crc > encoded_extent_max c)
        \<longrightarrow> bch2_bio_uncompress_inplace cd e c bio crc = Inr (- EIO, bio, crc))
   \<and> (\<forall>data u. bi_vcnt bio \<noteq> 0
        \<and> DIV_ROUND_UP (live_size crc) (PAGE_SECTORS e) \<le> bi_max_vecs bio
        \<and> uu_bounce_alloc e c (uncompressed_size crc * 512) WRITE = Inr data
        \<and> uu_bio_uncompress cd e c bio (b data) crc = Inr u \<and> u_ret u \<noteq> 0
        \<longrightarrow> bch2_bio_uncompress_inplace cd e c bio crc = Inr (- EIO, bio, crc))"
  by (auto simp: bch2_bio_uncompress_inplace_def Let_def EIO_def
           split: if_splits sum.splits)

theorem uncompress_inplace_crc_witness:
  "bch2_bio_uncompress_inplace codecs_fail env0 fs0 (mk_bio 512 (replicate 512 0))
       (mk_crc BCH_COMPRESSION_ZSTD 1 1)
     = Inr (- EIO, mk_bio 512 (replicate 512 0), mk_crc BCH_COMPRESSION_ZSTD 1 1)
   \<and> bch2_bio_uncompress_inplace (codecs_fill 10) env0 fs0 (mk_bio 512 (replicate 512 0))
       (mk_crc BCH_COMPRESSION_ZSTD 200 1)
     = Inr (- EIO, mk_bio 512 (replicate 512 0), mk_crc BCH_COMPRESSION_ZSTD 200 1)
   \<and> (\<exists>bio'. bch2_bio_uncompress_inplace (codecs_fill 10) env0 fs0 (mk_bio 512 (replicate 512 0))
       (mk_crc BCH_COMPRESSION_ZSTD 1 1)
     = Inr (0, bio', \<lparr>csum_type = 0, compression_type = BCH_COMPRESSION_NONE,
                      compressed_size = 1, uncompressed_size = 1, offset = 0, live_size = 1,
                      csum = (0, 0)\<rparr>))"
  using uncompress_inplace_crc [of codecs_fail env0 fs0 "mk_bio 512 (replicate 512 0)"
      "mk_crc BCH_COMPRESSION_ZSTD 1 1"]
    uncompress_inplace_crc [of "codecs_fill 10" env0 fs0 "mk_bio 512 (replicate 512 0)"
      "mk_crc BCH_COMPRESSION_ZSTD 200 1"]
    uncompress_inplace_crc [of "codecs_fill 10" env0 fs0 "mk_bio 512 (replicate 512 0)"
      "mk_crc BCH_COMPRESSION_ZSTD 1 1"]
  by (simp add: bch2_bio_uncompress_inplace_def uu_bio_uncompress_def uu_bounce_alloc_def
      bio_map_or_bounce_def uu_bio_map_or_bounce_def DIV_ROUND_UP_def memcpy_to_bio_def
      mk_bio_def mk_crc_def fs0_def env0_def codecs_fail_def codecs_fill_def EIO_def
      le32_to_cpup_def mem_read_def mem_write_def)

section \<open>Compression\<close>

subsection \<open>Rounding and the loop\<close>

lemma round_down_le: "round_down x y \<le> x"
  by (simp add: round_down_def)

lemma round_down_dvd: "y dvd round_down x y"
  by (simp add: round_down_def dvd_minus_mod)

lemma round_up_ge: "0 < y \<Longrightarrow> x \<le> round_up x y"
proof -
  assume y: "0 < y"
  have "x + y - 1 = (x + y - 1) div y * y + (x + y - 1) mod y" by simp
  moreover have "(x + y - 1) mod y \<le> y - 1" using y
    by (metis Suc_pred' less_Suc_eq_le mod_less_divisor)
  ultimately show ?thesis unfolding round_up_def using y by linarith
qed

lemma round_up_dvd: "y dvd round_up x y"
  by (simp add: round_up_def)

lemma round_up_less: "0 < y \<Longrightarrow> round_up x y < x + y"
proof -
  assume y: "0 < y"
  have "(x + y - 1) div y * y \<le> x + y - 1" by simp
  then show ?thesis unfolding round_up_def using y by linarith
qed

lemma next_len_less:
  assumes "512 dvd dst_len" "\<not> src_len \<le> dst_len" "\<not> src_len \<le> nat (- ret)" "\<not> 0 < ret"
  shows "next_len c (dst_len, src_len, ret) < src_len"
proof (cases "ret < 0")
  case True
  then have "next_len c (dst_len, src_len, ret) \<le> nat (- ret)"
    by (simp add: next_len_def round_down_le)
  with assms show ?thesis by linarith
next
  case False
  show ?thesis
  proof (cases "2 \<le> src_len - dst_len")
    case True
    then have "src_len - (src_len - dst_len) div 2 < src_len" by linarith
    moreover have "next_len c (dst_len, src_len, ret) \<le> src_len - (src_len - dst_len) div 2"
      using False by (simp add: next_len_def round_down_le)
    ultimately show ?thesis by linarith
  next
    case gap: False
    with assms have sl: "src_len = dst_len + 1" by linarith
    have "\<not> 512 dvd src_len"
    proof
      assume "512 dvd src_len"
      with assms(1) have "(512::nat) dvd src_len - dst_len" by (simp add: dvd_diff_nat)
      then show False using sl by simp
    qed
    then have "src_len mod (block_size c * 512) \<noteq> 0"
      by (metis dvd_mult dvd_refl mod_0_imp_dvd dvd_trans)
    then have "round_down src_len (block_bytes c) < src_len"
      using sl by (simp add: round_down_def block_bytes_def)
    then show ?thesis using False sl by (simp add: next_len_def)
  qed
qed

lemma compress_loop_returns:
  assumes "512 dvd dst_len"
  shows "\<exists>r. compress_loop cd c ctype src dst dst_len src_len tr = Some r"
proof (induction src_len arbitrary: dst tr rule: less_induct)
  case (less src_len)
  show ?case
  proof (cases "attempt_compress cd dst dst_len src src_len ctype")
    case (Inl x)
    then show ?thesis by (subst compress_loop.simps) simp
  next
    case (Inr p)
    obtain ret dst' where p: "p = (ret, dst')" by (cases p)
    show ?thesis
    proof (cases "src_len \<le> block_bytes c \<or> 0 < ret \<or> src_len \<le> dst_len \<or> src_len \<le> nat (- ret)")
      case True
      then show ?thesis using Inr p by (subst compress_loop.simps) auto
    next
      case False
      then have "next_len c (dst_len, src_len, ret) < src_len"
        using assms by (intro next_len_less) auto
      from less.IH [OF this, of dst' "tr @ [(dst_len, src_len, ret)]"]
      show ?thesis using False Inr p
        by (subst compress_loop.simps) (simp add: next_len_def)
    qed
  qed
qed


lemma shrinks_Cons:
  "shrinks c (a # new) \<longleftrightarrow>
     (new = [] \<or> (fst (snd (hd new)) = next_len c a \<and> fst (snd (hd new)) < fst (snd a)
        \<and> shrinks c new))"
  by (cases new) auto

lemma loop_post_step:
  assumes post: "loop_post c dst_len (next_len c (dst_len, src_len, ret))
                   (tr @ [(dst_len, src_len, ret)]) s"
    and nl: "\<not> src_len \<le> block_bytes c" "\<not> 0 < ret" "\<not> src_len \<le> dst_len"
            "\<not> src_len \<le> nat (- ret)"
  shows "loop_post c dst_len src_len tr s"
proof -
  let ?a = "(dst_len, src_len, ret)"
  let ?n = "next_len c ?a"
  have le: "?n \<le> src_len"
  proof (cases "ret < 0")
    case True
    then have "?n \<le> nat (- ret)" by (simp add: next_len_def round_down_le)
    with nl show ?thesis by linarith
  next
    case False
    then have "?n \<le> src_len - (src_len - dst_len) div 2"
      by (simp add: next_len_def round_down_le)
    then show ?thesis by linarith
  qed
  have dv: "block_bytes c dvd ?n"
    by (simp add: next_len_def round_down_dvd)
  from post obtain new where new:
    "s_attempts s = (tr @ [?a]) @ new"
    "list_all (\<lambda>a. fst a = dst_len \<and> fst (snd a) \<le> ?n \<and> block_bytes c < fst (snd a)) new"
    "new \<noteq> [] \<longrightarrow> fst (snd (hd new)) = ?n"
    "512 dvd dst_len \<longrightarrow> shrinks c new"
    "s_ret s = 0 \<longrightarrow> new \<noteq> [] \<and> last new = (dst_len, s_src_len s, int (s_dst_len s))
        \<and> 0 < s_dst_len s \<and> block_bytes c < s_src_len s"
    unfolding loop_post_def by blast
  have all: "list_all (\<lambda>a. fst a = dst_len \<and> fst (snd a) \<le> src_len \<and> block_bytes c < fst (snd a))
               (?a # new)"
    using new(2) le nl(1) by (auto simp: list_all_iff)
  have sh: "512 dvd dst_len \<longrightarrow> shrinks c (?a # new)"
  proof
    assume d: "512 dvd dst_len"
    have "?n < src_len" using d nl by (intro next_len_less) auto
    then show "shrinks c (?a # new)"
      using new(3,4) d by (auto simp: shrinks_Cons)
  qed
  have "s_attempts s = tr @ (?a # new)" using new(1) by simp
  moreover have "s_ret s = 0 \<longrightarrow> last (?a # new) = (dst_len, s_src_len s, int (s_dst_len s))"
    using new(5) by simp
  ultimately have ex: "\<exists>new'. s_attempts s = tr @ new'
        \<and> list_all (\<lambda>a. fst a = dst_len \<and> fst (snd a) \<le> src_len \<and> block_bytes c < fst (snd a)) new'
        \<and> (new' \<noteq> [] \<longrightarrow> fst (snd (hd new')) = src_len)
        \<and> (512 dvd dst_len \<longrightarrow> shrinks c new')
        \<and> (s_ret s = 0 \<longrightarrow>
              new' \<noteq> [] \<and> last new' = (dst_len, s_src_len s, int (s_dst_len s))
            \<and> 0 < s_dst_len s \<and> block_bytes c < s_src_len s)"
    using all sh new(5) by (intro exI [of _ "?a # new"]) simp
  from post have rest: "(s_ret s = 0 \<or> s_ret s = - 1)" "s_src_len s \<le> ?n"
    "s_src_len s = ?n \<or> block_bytes c dvd s_src_len s" "s_ret s \<noteq> 0 \<longrightarrow> s_dst_len s = dst_len"
    unfolding loop_post_def by blast+
  have A: "s_src_len s \<le> src_len" using rest(2) le by linarith
  have B: "s_src_len s = src_len \<or> block_bytes c dvd s_src_len s" using rest(3) dv by auto
  show ?thesis
    unfolding loop_post_def by (intro conjI) (rule rest(1), rule A, rule B, rule rest(4), rule ex)
qed

lemma compress_loop_post:
  assumes "compress_loop cd c ctype src dst dst_len src_len tr = Some (Inr s)"
  shows "loop_post c dst_len src_len tr s"
proof -
  have "\<forall>s. y = Inr s \<longrightarrow> loop_post c dst_len src_len tr s"
    if "compress_loop cd c ctype src dst dst_len src_len tr = Some y" for y
  proof (rule compress_loop.raw_induct
      [where P = "\<lambda>cd c ctype src dst dst_len src_len tr y.
                    \<forall>s. y = Inr s \<longrightarrow> loop_post c dst_len src_len tr s", OF _ that], goal_cases)
    case (1 f cd c ctype src dst dst_len src_len tr y)
    show ?case
    proof (intro allI impI)
      fix s assume y: "y = Inr s"
      show "loop_post c dst_len src_len tr s"
      proof (cases "src_len \<le> block_bytes c")
        case True
        with 1(2) y have "s = \<lparr>s_ret = - 1, s_dst = dst, s_dst_len = dst_len,
            s_src_len = src_len, s_attempts = tr\<rparr>" by simp
        then show ?thesis by (simp add: loop_post_def)
      next
        case big: False
        show ?thesis
        proof (cases "attempt_compress cd dst dst_len src src_len ctype")
          case (Inl x)
          with 1(2) y big show ?thesis by simp
        next
          case (Inr p)
          obtain ret dst' where p: "p = (ret, dst')" by (cases p)
          consider (ok) "0 < ret" | (nofit) "\<not> 0 < ret" "src_len \<le> dst_len"
            | (bug) "\<not> 0 < ret" "\<not> src_len \<le> dst_len" "src_len \<le> nat (- ret)"
            | (again) "\<not> 0 < ret" "\<not> src_len \<le> dst_len" "\<not> src_len \<le> nat (- ret)"
            by blast
          then show ?thesis
          proof cases
            case ok
            with 1(2) y big Inr p have "s = \<lparr>s_ret = 0, s_dst = dst', s_dst_len = nat ret,
                s_src_len = src_len, s_attempts = tr @ [(dst_len, src_len, ret)]\<rparr>" by simp
            then show ?thesis using ok big by (simp add: loop_post_def)
          next
            case nofit
            with 1(2) y big Inr p have "s = \<lparr>s_ret = - 1, s_dst = dst', s_dst_len = dst_len,
                s_src_len = src_len, s_attempts = tr @ [(dst_len, src_len, ret)]\<rparr>" by simp
            then show ?thesis using nofit big by (simp add: loop_post_def)
          next
            case bug
            with 1(2) y big Inr p show ?thesis by simp
          next
            case again
            with 1(2) y big Inr p
            have "f cd c ctype src dst' dst_len (next_len c (dst_len, src_len, ret))
                    (tr @ [(dst_len, src_len, ret)]) = Some (Inr s)"
              by (simp add: next_len_def)
            from 1(1) [OF this] have "loop_post c dst_len (next_len c (dst_len, src_len, ret))
                    (tr @ [(dst_len, src_len, ret)]) s" by simp
            then show ?thesis using big again by (rule loop_post_step)
          qed
        qed
      qed
    qed
  qed
  with assms show ?thesis by blast
qed


lemma uu_bio_compress_cases:
  assumes "uu_bio_compress cd e c dst dl0 src sl0 ctype = Some (Inr r)"
  obtains (early) "bio_sectors src \<le> block_size c"
      "r = \<lparr>c_type = BCH_COMPRESSION_NONE, c_dst_len = dl0, c_src_len = sl0, c_dst = dst,
            c_src = src, c_attempts = []\<rparr>"
    | (searched) dd sd s where "\<not> bio_sectors src \<le> block_size c"
      "bio_map_or_bounce e c dst WRITE = Inr dd" "bio_map_or_bounce e c src READ = Inr sd"
      "compress_loop cd c ctype (b sd) (b dd) (bi_size dst) (bi_size src) [] = Some (Inr s)"
      "compress_finish c dst src (type dd) ctype s = Inr r"
  using assms unfolding uu_bio_compress_def
  by (auto split: if_splits sum.splits option.splits)

lemma bi_size_through [simp]: "bi_size (through bio ty buf) = bi_size bio"
  by (simp add: through_def)

lemma bi_size_memcpy_to_bio [simp]: "bi_size (memcpy_to_bio bio n buf) = bi_size bio"
  by (simp add: memcpy_to_bio_def)

lemma compress_finish_frame:
  assumes "compress_finish c dst src ty ctype s = Inr r"
  shows "bi_size (c_dst r) = bi_size dst" "c_src r = src" "c_attempts r = s_attempts s"
  using assms unfolding compress_finish_def Let_def
  by (auto split: if_splits)

lemma compress_finish_cases:
  assumes "compress_finish c dst src ty ctype s = Inr r"
  obtains (err) "c_type r = BCH_COMPRESSION_NONE"
      "s_ret s \<noteq> 0 \<or> s_src_len s \<le> round_up (s_dst_len s) (block_bytes c)"
    | (ok) "c_type r = ctype" "s_ret s = 0"
      "\<not> s_src_len s \<le> round_up (s_dst_len s) (block_bytes c)"
      "c_dst_len r = s_dst_len s + pad c (s_dst_len s)"
      "c_src_len r = s_src_len s"
      "c_dst_len r \<noteq> 0" "c_dst_len r \<le> bi_size dst"
      "c_src_len r \<noteq> 0" "c_src_len r \<le> bi_size src"
      "c_dst_len r AND block_mask c = 0" "c_src_len r AND block_mask c = 0"
      "c_dst r = (if ty \<noteq> BB_NONE
          then memcpy_to_bio (through dst ty (mem_write (s_dst s) (s_dst_len s)
                 (replicate (pad c (s_dst_len s)) 0)))
                 (bi_size dst)
                 (mem_write (s_dst s) (s_dst_len s) (replicate (pad c (s_dst_len s)) 0))
          else through dst ty (mem_write (s_dst s) (s_dst_len s)
                 (replicate (pad c (s_dst_len s)) 0)))"
  using assms unfolding compress_finish_def Let_def
  by (auto split: if_splits)

lemma uu_bio_compress_returns:
  assumes "512 dvd bi_size dst"
  shows "\<exists>res. uu_bio_compress cd e c dst dl0 src sl0 ctype = Some res"
proof (cases "bio_map_or_bounce e c dst WRITE")
  case Inl
  then show ?thesis by (simp add: uu_bio_compress_def)
next
  case dd: (Inr dd)
  show ?thesis
  proof (cases "bio_map_or_bounce e c src READ")
    case Inl
    then show ?thesis using dd by (simp add: uu_bio_compress_def)
  next
    case sd: (Inr sd)
    from assms obtain r where
      "compress_loop cd c ctype (b sd) (b dd) (bi_size dst) (bi_size src) [] = Some r"
      using compress_loop_returns by blast
    then show ?thesis using dd sd
      by (cases r) (simp_all add: uu_bio_compress_def)
  qed
qed


lemma compress_loop_stuck:
  "compress_loop codecs_fail fs0 BCH_COMPRESSION_GZIP src dst 1023 1024 tr = None"
proof -
  have H: "\<not> (cd = codecs_fail \<and> c = fs0 \<and> t = BCH_COMPRESSION_GZIP \<and> dl = 1023 \<and> sl = 1024)"
    if "compress_loop cd c t s d dl sl tr = Some y" for cd c t s d dl sl tr y
  proof (rule compress_loop.raw_induct
          [where P = "\<lambda>cd c t s d dl sl tr y.
             \<not> (cd = codecs_fail \<and> c = fs0 \<and> t = BCH_COMPRESSION_GZIP \<and> dl = 1023 \<and> sl = 1024)",
           OF _ that], goal_cases)
    case (1 f cd c t s d dl sl tr y)
    show ?case
    proof
      assume A: "cd = codecs_fail \<and> c = fs0 \<and> t = BCH_COMPRESSION_GZIP \<and> dl = 1023 \<and> sl = 1024"
      with 1(2) have "f codecs_fail fs0 BCH_COMPRESSION_GZIP s (mem_write d 0 []) 1023 1024
          (tr @ [(1023, 1024, 0)]) = Some y"
        by (simp add: attempt_compress_def codecs_fail_def block_bytes_def fs0_def round_down_def)
      from 1(1)[OF this] show False by simp
    qed
  qed
  show ?thesis
  proof (rule ccontr)
    assume "compress_loop codecs_fail fs0 BCH_COMPRESSION_GZIP src dst 1023 1024 tr \<noteq> None"
    then obtain y where
      "compress_loop codecs_fail fs0 BCH_COMPRESSION_GZIP src dst 1023 1024 tr = Some y"
      by auto
    from H [OF this] show False by simp
  qed
qed

text \<open>
  The sector granularity of the destination is what the progress of the loop rests on.
  Were a destination of 1023 bytes possible, with a source of 1024 bytes, 512-byte blocks
  and a codec whose output does not fit, half the gap would be 0 and 1024 a block multiple
  already: the same attempt would be repeated for ever.
\<close>

lemma compress_search_needs_sectors:
  "uu_bio_compress codecs_fail env0 fs0 (mk_bio 1023 (replicate 1023 0)) 0
     (mk_bio 1024 (replicate 1024 1)) 0 BCH_COMPRESSION_GZIP = None"
  by (simp add: uu_bio_compress_def bio_sectors_def compress_loop_stuck)



lemma and_mask_dvd: "(x::nat) AND (2 ^ n - 1) = 0 \<longleftrightarrow> 2 ^ n dvd x"
proof -
  have "x AND (2 ^ n - 1) = x mod 2 ^ n"
    by (metis mask_eq_exp_minus_1 take_bit_eq_mask take_bit_eq_mod)
  then show ?thesis by (simp add: mod_eq_0_iff_dvd)
qed

lemma length_mem_write: "off + length bs \<le> length (mem_write m off bs)"
  by (simp add: mem_write_def)

lemma mem_write_nth:
  assumes "off \<le> i" "i < off + length bs"
  shows "mem_write m off bs ! i = bs ! (i - off)"
proof -
  define pre where "pre = take off (m @ replicate (off - length m) 0)"
  have lp: "length pre = off" by (simp add: pre_def)
  have "mem_write m off bs = pre @ (bs @ drop (off + length bs) m)"
    by (simp add: mem_write_def pre_def)
  then have "mem_write m off bs ! i = (bs @ drop (off + length bs) m) ! (i - off)"
    using assms(1) lp by (simp add: nth_append)
  also have "\<dots> = bs ! (i - off)"
  proof -
    have "i - off < length bs" using assms by linarith
    then show ?thesis by (simp add: nth_append)
  qed
  finally show ?thesis .
qed

lemma mem_write_0_nth: "i < length bs \<Longrightarrow> mem_write m 0 bs ! i = bs ! i"
  using mem_write_nth [of 0 i bs m] by simp

text \<open>
  C5. When \<^verbatim>\<open>__bio_compress\<close> returns a codec id other than 0 (for a block size that is
  a power of two, which mkfs enforces, and a 16-bit number of sectors): the output length is nonzero, at most the
  destination capacity and a multiple of the block size; so is the consumed source length
  with respect to the source capacity; the output length is the length the last attempt
  produced, rounded up to the block size, and every byte of the destination between the
  two is zero.
\<close>

theorem compress_result_invariants:
  assumes res: "uu_bio_compress cd e c dst dl0 src sl0 ctype = Some (Inr r)"
    and some: "c_type r \<noteq> BCH_COMPRESSION_NONE"
    and pow: "block_size c = 2 ^ k" "k < 16"
  shows "0 < c_dst_len r \<and> c_dst_len r \<le> bi_size dst \<and> block_bytes c dvd c_dst_len r
     \<and> 0 < c_src_len r \<and> c_src_len r \<le> bi_size src \<and> block_bytes c dvd c_src_len r
     \<and> c_attempts r \<noteq> []
     \<and> 0 < snd (snd (last (c_attempts r)))
     \<and> c_dst_len r = round_up (nat (snd (snd (last (c_attempts r))))) (block_bytes c)
     \<and> (\<forall>i. nat (snd (snd (last (c_attempts r)))) \<le> i \<and> i < c_dst_len r
            \<longrightarrow> bi_data (c_dst r) ! i = 0)"
  using res
proof (cases rule: uu_bio_compress_cases)
  case early
  with some show ?thesis by simp
next
  case (searched dd sd s)
  have bb: "block_bytes c = 2 ^ (k + 9)"
    using pow by (simp add: block_bytes_def power_add)
  then have bbpos: "0 < block_bytes c" by simp
  have "(2::nat) ^ (k + 9) \<le> 2 ^ 24" using pow(2) by (intro power_increasing) auto
  then have bbsmall: "block_bytes c \<le> 2 ^ 24" using bb by simp
  have mask: "block_mask c = 2 ^ (k + 9) - 1"
  proof -
    have "block_bytes c + 2 ^ 64 - 1 = 2 ^ 64 + (block_bytes c - 1)" using bbpos by simp
    then have "block_mask c = (block_bytes c - 1) mod 2 ^ 64"
      unfolding block_mask_def by (simp only: mod_add_self1)
    then show ?thesis using bbsmall bb by simp
  qed
  from searched(5) show ?thesis
  proof (cases rule: compress_finish_cases)
    case err
    with some show ?thesis by simp
  next
    case ok
    let ?raw = "s_dst_len s"
    let ?pad = "round_up ?raw (block_bytes c) - ?raw"
    let ?dd = "mem_write (s_dst s) ?raw (replicate ?pad 0)"
    from compress_loop_post [OF searched(4)] ok(2)
    have tr: "s_attempts s \<noteq> []"
      "last (s_attempts s) = (bi_size dst, s_src_len s, int ?raw)" "0 < ?raw"
      unfolding loop_post_def by auto
    have att: "c_attempts r = s_attempts s" by (rule compress_finish_frame(3) [OF searched(5)])
    have ge: "?raw \<le> round_up ?raw (block_bytes c)" using bbpos by (rule round_up_ge)
    have "round_up ?raw (block_bytes c) < ?raw + block_bytes c" using bbpos by (rule round_up_less)
    then have small: "?pad < 2 ^ 32" using bbsmall by simp
    have "round_up ?raw (block_bytes c) + 2 ^ 64 - ?raw = 2 ^ 32 * 2 ^ 32 + ?pad"
      using ge by simp
    then have padeq: "pad c ?raw = ?pad"
      unfolding pad_def using small by (simp only: mod_mult_self4 mod_less)
    then have len: "c_dst_len r = round_up ?raw (block_bytes c)" using ok(4) ge by simp
    have d1: "block_bytes c dvd c_dst_len r" using ok(10) unfolding bb mask and_mask_dvd .
    have d2: "block_bytes c dvd c_src_len r" using ok(11) unfolding bb mask and_mask_dvd .
    have zero: "bi_data (c_dst r) ! i = 0" if i: "?raw \<le> i" "i < c_dst_len r" for i
    proof -
      have i2: "i < ?raw + length (replicate ?pad (0::byte))" using i len ge by simp
      have nth: "?dd ! i = 0"
        using mem_write_nth [OF i(1) i2, of "s_dst s"] i len ge by simp
      have ldd: "c_dst_len r \<le> length ?dd"
        using length_mem_write [of ?raw "replicate ?pad (0::byte)" "s_dst s"] len ge by simp
      show ?thesis
      proof (cases "type dd = BB_NONE")
        case True
        then show ?thesis using ok(12) nth padeq by (simp add: through_def)
      next
        case False
        have "i < length (mem_read ?dd 0 (bi_size dst))"
          using i(2) ok(7) ldd by (simp add: mem_read_def)
        then have "mem_write (bi_data (through dst (type dd) ?dd)) 0 (mem_read ?dd 0 (bi_size dst)) ! i
                    = mem_read ?dd 0 (bi_size dst) ! i"
          by (rule mem_write_0_nth)
        also have "\<dots> = ?dd ! i" using i(2) ok(7) by (simp add: mem_read_def)
        finally show ?thesis using False ok(12) nth padeq by (simp add: memcpy_to_bio_def)
      qed
    qed
    show ?thesis
      using ok(6,7,8,9) d1 d2 tr att len zero ok(5) by simp
  qed
qed

lemma compress_example:
  "uu_bio_compress (codecs_fill 10) env0 fs0 (mk_bio 1024 (replicate 1024 255)) 0
     (mk_bio 1024 (replicate 1024 1)) 0 BCH_COMPRESSION_GZIP
   = Some (Inr \<lparr>c_type = BCH_COMPRESSION_GZIP, c_dst_len = 512, c_src_len = 1024,
        c_dst = mk_bio 1024 (replicate 10 7 @ replicate 502 0 @ replicate 512 255),
        c_src = mk_bio 1024 (replicate 1024 1), c_attempts = [(1024, 1024, 10)]\<rparr>)"
  apply (simp add: uu_bio_compress_def bio_map_or_bounce_def uu_bio_map_or_bounce_def
      bio_sectors_def)
  apply (subst compress_loop.simps)
  apply (simp add: attempt_compress_def compress_finish_def pad_def block_mask_def
      round_up_def through_def
      mem_write_def mem_read_def mk_bio_def)
  done


theorem compress_result_invariants_witness:
  "\<exists>r. uu_bio_compress (codecs_fill 10) env0 fs0 (mk_bio 1024 (replicate 1024 255)) 0
          (mk_bio 1024 (replicate 1024 1)) 0 BCH_COMPRESSION_GZIP = Some (Inr r)
     \<and> c_type r \<noteq> BCH_COMPRESSION_NONE \<and> block_size fs0 = 2 ^ 0
     \<and> c_dst_len r = 512 \<and> block_bytes fs0 dvd c_dst_len r \<and> c_src_len r = 1024
     \<and> (\<forall>i. 10 \<le> i \<and> i < 512 \<longrightarrow> bi_data (c_dst r) ! i = 0)"
proof -
  let ?r = "\<lparr>c_type = BCH_COMPRESSION_GZIP, c_dst_len = 512, c_src_len = 1024,
        c_dst = mk_bio 1024 (replicate 10 7 @ replicate 502 0 @ replicate 512 255),
        c_src = mk_bio 1024 (replicate 1024 1), c_attempts = [(1024, 1024, 10)]\<rparr>"
  have ty: "c_type ?r \<noteq> BCH_COMPRESSION_NONE" by simp
  have bs: "block_size fs0 = 2 ^ 0" "(0::nat) < 16" by simp_all
  from compress_result_invariants [OF compress_example ty bs]
  show ?thesis using compress_example by simp
qed

text \<open>
  C6. After a successful attempt (the loop is left with \<open>ret = 0\<close>), if the output length
  rounded up to the block size is not below the consumed source length rounded up to the
  block size, \<^verbatim>\<open>__bio_compress\<close> returns the codec id 0.
\<close>

theorem not_smaller_is_incompressible:
  assumes "\<forall>n. ctype \<noteq> BCH_COMPRESSION_INVALID n" "compress_workspace c ctype"
    and "\<not> bio_sectors src \<le> block_size c"
    and "bio_map_or_bounce e c dst WRITE = Inr dd" "bio_map_or_bounce e c src READ = Inr sd"
    and "compress_loop cd c ctype (b sd) (b dd) (bi_size dst) (bi_size src) [] = Some (Inr s)"
    and "s_ret s = 0" "0 < block_size c"
    and "round_up (s_src_len s) (block_bytes c) \<le> round_up (s_dst_len s) (block_bytes c)"
  shows "\<exists>r. uu_bio_compress cd e c dst dl0 src sl0 ctype = Some (Inr r)
           \<and> c_type r = BCH_COMPRESSION_NONE"
proof -
  have "0 < block_bytes c" using assms(8) by (simp add: block_bytes_def)
  then have "s_src_len s \<le> round_up (s_src_len s) (block_bytes c)" by (rule round_up_ge)
  with assms(9) have "s_src_len s \<le> round_up (s_dst_len s) (block_bytes c)" by linarith
  then have "\<exists>r. compress_finish c dst src (type dd) ctype s = Inr r
               \<and> c_type r = BCH_COMPRESSION_NONE"
    by (simp add: compress_finish_def Let_def)
  moreover have "uu_bio_compress cd e c dst dl0 src sl0 ctype
                  = Some (compress_finish c dst src (type dd) ctype s)"
    using assms(1-6) by (cases ctype) (simp_all add: uu_bio_compress_def)
  ultimately show ?thesis by auto
qed

lemma not_smaller_example:
  "compress_loop (codecs_fill 600) fs0 BCH_COMPRESSION_GZIP (replicate 1024 1)
       (replicate 1024 255) 1024 1024 []
     = Some (Inr \<lparr>s_ret = 0, s_dst = replicate 600 7 @ replicate 424 255, s_dst_len = 600,
                  s_src_len = 1024, s_attempts = [(1024, 1024, 600)]\<rparr>)"
  apply (subst compress_loop.simps)
  apply (simp add: attempt_compress_def mem_write_def mem_read_def)
  done

theorem not_smaller_is_incompressible_witness:
  "\<exists>r. uu_bio_compress (codecs_fill 600) env0 fs0 (mk_bio 1024 (replicate 1024 255)) 0
          (mk_bio 1024 (replicate 1024 1)) 0 BCH_COMPRESSION_GZIP = Some (Inr r)
      \<and> c_type r = BCH_COMPRESSION_NONE"
proof -
  have m1: "bio_map_or_bounce env0 fs0 (mk_bio 1024 (replicate 1024 255)) WRITE
              = Inr \<lparr>b = replicate 1024 255, type = BB_NONE, rw = WRITE\<rparr>"
    by (simp add: bio_map_or_bounce_def uu_bio_map_or_bounce_def)
  have m2: "bio_map_or_bounce env0 fs0 (mk_bio 1024 (replicate 1024 1)) READ
              = Inr \<lparr>b = replicate 1024 1, type = BB_NONE, rw = READ\<rparr>"
    by (simp add: bio_map_or_bounce_def uu_bio_map_or_bounce_def)
  show ?thesis
    by (rule not_smaller_is_incompressible [OF _ _ _ m1 m2, where s =
          "\<lparr>s_ret = 0, s_dst = replicate 600 7 @ replicate 424 255, s_dst_len = 600,
            s_src_len = 1024, s_attempts = [(1024, 1024, 600)]\<rparr>"])
       (simp_all add: not_smaller_example bio_sectors_def round_up_def)
qed

text \<open>
  C7. Whenever \<^verbatim>\<open>bch2_bio_compress\<close> returns, both bios have the lengths they had at
  the call; every attempt of the search was given the destination length
  \<open>min dst (min src max)\<close> and a source length of at most \<open>min src max\<close>, where \<open>max\<close> is
  the extent limit in bytes, and the first attempt the source length \<open>min src max\<close>. For
  sector-sized buffers it does return.
\<close>

theorem bio_compress_clamps_and_restores:
  "(\<forall>r. bch2_bio_compress cd e c dst dl0 src sl0 ctype = Some (Inr r) \<longrightarrow>
       bi_size (c_dst r) = bi_size dst \<and> bi_size (c_src r) = bi_size src
     \<and> list_all (\<lambda>a. fst a = min (bi_size dst) (min (bi_size src) (encoded_extent_max c * 512))
                     \<and> fst (snd a) \<le> min (bi_size src) (encoded_extent_max c * 512))
          (c_attempts r)
     \<and> (c_attempts r \<noteq> [] \<longrightarrow>
          fst (snd (hd (c_attempts r))) = min (bi_size src) (encoded_extent_max c * 512)))
   \<and> (512 dvd bi_size dst \<and> 512 dvd bi_size src \<longrightarrow>
        (\<exists>res. bch2_bio_compress cd e c dst dl0 src sl0 ctype = Some res))"
proof (intro conjI allI impI)
  let ?src1 = "src\<lparr>bi_size := min (bi_size src) (encoded_extent_max c * 512)\<rparr>"
  let ?dst1 = "dst\<lparr>bi_size := min (bi_size dst) (bi_size ?src1)\<rparr>"
  let ?t = "if ctype = BCH_COMPRESSION_LZ4_OLD then BCH_COMPRESSION_LZ4 else ctype"
  {
    fix r assume "bch2_bio_compress cd e c dst dl0 src sl0 ctype = Some (Inr r)"
    then obtain r' where inner: "uu_bio_compress cd e c ?dst1 dl0 ?src1 sl0 ?t = Some (Inr r')"
      and r: "r = r'\<lparr>c_dst := (c_dst r')\<lparr>bi_size := bi_size dst\<rparr>,
                     c_src := (c_src r')\<lparr>bi_size := bi_size src\<rparr>\<rparr>"
      unfolding bch2_bio_compress_def Let_def
      by (auto split: option.splits sum.splits)
    show "bi_size (c_dst r) = bi_size dst" using r by simp
    show "bi_size (c_src r) = bi_size src" using r by simp
    have tr: "list_all (\<lambda>a. fst a = bi_size ?dst1 \<and> fst (snd a) \<le> bi_size ?src1) (c_attempts r')
              \<and> (c_attempts r' \<noteq> [] \<longrightarrow> fst (snd (hd (c_attempts r'))) = bi_size ?src1)"
      using inner
    proof (cases rule: uu_bio_compress_cases)
      case early
      then show ?thesis by simp
    next
      case (searched dd sd s)
      from compress_loop_post [OF searched(4)]
      have "list_all (\<lambda>a. fst a = bi_size ?dst1 \<and> fst (snd a) \<le> bi_size ?src1
                \<and> block_bytes c < fst (snd a)) (s_attempts s)
            \<and> (s_attempts s \<noteq> [] \<longrightarrow> fst (snd (hd (s_attempts s))) = bi_size ?src1)"
        unfolding loop_post_def by auto
      then show ?thesis
        using compress_finish_frame(3) [OF searched(5)] by (auto simp: list_all_iff)
    qed
    show "list_all (\<lambda>a. fst a = min (bi_size dst) (min (bi_size src) (encoded_extent_max c * 512))
                     \<and> fst (snd a) \<le> min (bi_size src) (encoded_extent_max c * 512))
            (c_attempts r)"
      using tr r by simp
    assume "c_attempts r \<noteq> []"
    then show "fst (snd (hd (c_attempts r))) = min (bi_size src) (encoded_extent_max c * 512)"
      using tr r by simp
  }
  assume al: "512 dvd bi_size dst \<and> 512 dvd bi_size src"
  then have "512 dvd bi_size ?dst1" by (simp add: min_def)
  from uu_bio_compress_returns [OF this, of cd e c dl0 ?src1 sl0 ?t]
  obtain res where "uu_bio_compress cd e c ?dst1 dl0 ?src1 sl0 ?t = Some res" by blast
  then show "\<exists>res. bch2_bio_compress cd e c dst dl0 src sl0 ctype = Some res"
    unfolding bch2_bio_compress_def Let_def by (cases res) simp_all
qed


lemma clamp_example:
  "bch2_bio_compress (codecs_fill 10) env0 fs0 (mk_bio 131072 (replicate 131072 255)) 0
     (mk_bio 131072 (replicate 131072 1)) 0 BCH_COMPRESSION_LZ4_OLD
   = Some (Inr \<lparr>c_type = BCH_COMPRESSION_LZ4, c_dst_len = 512, c_src_len = 65536,
        c_dst = mk_bio 131072 (replicate 10 7 @ replicate 502 0 @ replicate 130560 255),
        c_src = mk_bio 131072 (replicate 131072 1), c_attempts = [(65536, 65536, 10)]\<rparr>)"
  apply (simp add: bch2_bio_compress_def uu_bio_compress_def bio_map_or_bounce_def
      uu_bio_map_or_bounce_def bio_sectors_def mk_bio_def)
  apply (subst compress_loop.simps)
  apply (simp add: attempt_compress_def compress_finish_def pad_def block_mask_def
      round_up_def through_def
      mem_write_def mem_read_def)
  done

theorem bio_compress_clamps_and_restores_witness:
  "\<exists>r. bch2_bio_compress (codecs_fill 10) env0 fs0 (mk_bio 131072 (replicate 131072 255)) 0
          (mk_bio 131072 (replicate 131072 1)) 0 BCH_COMPRESSION_LZ4_OLD = Some (Inr r)
     \<and> bi_size (c_dst r) = 131072 \<and> bi_size (c_src r) = 131072
     \<and> c_attempts r = [(65536, 65536, 10)]
     \<and> 512 dvd bi_size (mk_bio 131072 (replicate 131072 255))
     \<and> 512 dvd bi_size (mk_bio 131072 (replicate 131072 1))"
  using bio_compress_clamps_and_restores [of "codecs_fill 10" env0 fs0
      "mk_bio 131072 (replicate 131072 255)" 0 "mk_bio 131072 (replicate 131072 1)" 0
      BCH_COMPRESSION_LZ4_OLD] clamp_example
  by simp

text \<open>
  C8. For a source of at most one block, \<^verbatim>\<open>__bio_compress\<close> and \<^verbatim>\<open>bch2_bio_compress\<close>
  return the codec id 0 with no attempt made, whatever the codec does (unless the two
  assertions of lines 358-359 stop the kernel before).
\<close>

theorem one_block_incompressible:
  assumes "bi_size src \<le> block_bytes c"
  shows "uu_bio_compress cd e c dst dl0 src sl0 ctype =
           (if (\<exists>n. ctype = BCH_COMPRESSION_INVALID n) \<or> \<not> compress_workspace c ctype
            then Some (Inl BUG)
            else Some (Inr \<lparr>c_type = BCH_COMPRESSION_NONE, c_dst_len = dl0, c_src_len = sl0,
                             c_dst = dst, c_src = src, c_attempts = []\<rparr>))
       \<and> bch2_bio_compress cd e c dst dl0 src sl0 ctype =
           (if (\<exists>n. ctype = BCH_COMPRESSION_INVALID n)
               \<or> \<not> compress_workspace c
                     (if ctype = BCH_COMPRESSION_LZ4_OLD then BCH_COMPRESSION_LZ4 else ctype)
            then Some (Inl BUG)
            else Some (Inr \<lparr>c_type = BCH_COMPRESSION_NONE, c_dst_len = dl0, c_src_len = sl0,
                             c_dst = dst, c_src = src, c_attempts = []\<rparr>))"
proof -
  have small: "bi_size b' \<le> bi_size src \<Longrightarrow> bio_sectors b' \<le> block_size c" for b' :: bio
    using assms by (simp add: bio_sectors_def block_bytes_def)
  have one: "uu_bio_compress cd e c d' dl0 s' sl0 t =
           (if (\<exists>n. t = BCH_COMPRESSION_INVALID n) \<or> \<not> compress_workspace c t
            then Some (Inl BUG)
            else Some (Inr \<lparr>c_type = BCH_COMPRESSION_NONE, c_dst_len = dl0, c_src_len = sl0,
                             c_dst = d', c_src = s', c_attempts = []\<rparr>))"
    if "bi_size s' \<le> bi_size src" for d' s' t
    using small [OF that] by (cases t) (simp_all add: uu_bio_compress_def)
  show ?thesis
    by (simp add: one bch2_bio_compress_def Let_def)
qed

theorem one_block_incompressible_witness:
  "bi_size (mk_bio 512 (replicate 512 1)) \<le> block_bytes fs0
   \<and> bch2_bio_compress (codecs_fill 10) env0 fs0 (mk_bio 512 (replicate 512 255)) 0
       (mk_bio 512 (replicate 512 1)) 0 BCH_COMPRESSION_ZSTD
     = Some (Inr \<lparr>c_type = BCH_COMPRESSION_NONE, c_dst_len = 0, c_src_len = 0,
                  c_dst = mk_bio 512 (replicate 512 255), c_src = mk_bio 512 (replicate 512 1),
                  c_attempts = []\<rparr>)"
  using one_block_incompressible [of "mk_bio 512 (replicate 512 1)" fs0 "codecs_fill 10" env0
      "mk_bio 512 (replicate 512 255)" 0 0 BCH_COMPRESSION_ZSTD]
  by simp

subsection \<open>The length prefix of zstd\<close>

lemma le32_roundtrip:
  assumes "n < 2 ^ 32"
  shows "le32_to_cpup (cpu_to_le32 n) = n"
proof -
  have u: "unat (word_of_nat m :: byte) = m mod 256" for m
    by (simp add: unat_of_nat)
  have d2: "n div 65536 = n div 256 div 256" by (simp add: div_mult2_eq)
  have d3: "n div 16777216 = n div 256 div 256 div 256" by (simp add: div_mult2_eq)
  have top: "n div 256 div 256 div 256 < 256" using assms by (simp add: div_mult2_eq)
  show ?thesis
    unfolding le32_to_cpup_def cpu_to_le32_def
    using top by (simp add: u d2 d3 div_mult2_eq mod_mult2_eq)
qed

lemma length_cpu_to_le32 [simp]: "length (cpu_to_le32 n) = 4"
  by (simp add: cpu_to_le32_def)

lemma zstd_stored:
  "mem_write (mem_write dst 4 frame) 0 (cpu_to_le32 n)
     = cpu_to_le32 n @ frame @ drop (4 + length frame) dst"
  by (simp add: mem_write_def)

text \<open>
  C9. When the zstd compressor reports no error and has written the frame \<open>frame\<close>
  (shorter than \<open>2 ^ 32\<close> bytes, as every frame that fits a destination is),
  \<^verbatim>\<open>attempt_compress\<close> returns the length of the frame plus 4, the first four bytes of the
  destination are the length of the frame in little-endian order, and the frame follows
  them. For an extent whose mapped source starts with these bytes, \<^verbatim>\<open>__bio_uncompress\<close>
  reads the prefix, hands the decoder the range of that many bytes at offset 4, which is
  the frame, and succeeds exactly when the decoder produces the target length from it.
\<close>

theorem zstd_length_prefix:
  assumes comp: "ZSTD_compressCCtx cd (mem_read src 0 src_len)
                   ((dst_len + 2 ^ 64 - 4) mod 2 ^ 64) = (False, frame)"
    and len: "length frame < 2 ^ 32"
    and att: "attempt_compress cd dst dst_len src src_len BCH_COMPRESSION_ZSTD = Inr (ret, stored)"
    and mapped: "bio_map_or_bounce e c bio READ = Inr sd"
    and same: "mem_read (b sd) 0 (4 + length frame) = mem_read stored 0 (4 + length frame)"
    and zstd: "compression_type crc = BCH_COMPRESSION_ZSTD"
  shows "ret = int (length frame) + 4
     \<and> mem_read stored 0 4 = cpu_to_le32 (length frame)
     \<and> le32_to_cpup (mem_read stored 0 4) = length frame
     \<and> mem_read stored 4 (length frame) = frame
     \<and> (\<exists>u. uu_bio_uncompress cd' e c bio dst' crc = Inr u
          \<and> u_reads u = [(0, 4), (4, length frame)]
          \<and> (u_ret u = 0 \<longleftrightarrow>
               (\<exists>out. ZSTD_decompressDCtx cd' frame (uncompressed_size crc * 512) = Some out
                    \<and> length out = uncompressed_size crc * 512)))"
proof -
  from att comp have ret: "ret = int (length frame) + 4"
    and st: "stored = cpu_to_le32 (length frame) @ frame @ drop (4 + length frame) dst"
    by (simp_all add: attempt_compress_def zstd_stored)
  have p: "mem_read stored 0 4 = cpu_to_le32 (length frame)"
    by (simp add: st mem_read_def)
  have f: "mem_read stored 4 (length frame) = frame"
    by (simp add: st mem_read_def)
  have "take 4 (take (4 + length frame) (b sd)) = take 4 (take (4 + length frame) stored)"
    using same by (simp add: mem_read_def)
  then have p': "mem_read (b sd) 0 4 = cpu_to_le32 (length frame)"
    using p by (simp add: mem_read_def min_def)
  have "drop 4 (take (4 + length frame) (b sd)) = drop 4 (take (4 + length frame) stored)"
    using same by (simp add: mem_read_def)
  then have f': "mem_read (b sd) 4 (length frame) = frame"
    using f by (simp add: mem_read_def drop_take)
  have l: "le32_to_cpup (cpu_to_le32 (length frame)) = length frame"
    using len by (rule le32_roundtrip)
  show ?thesis
    using ret p f l p' f' mapped zstd
    by (auto simp: uu_bio_uncompress_def Let_def EIO_def split: option.splits)
qed

theorem zstd_length_prefix_witness:
  "\<exists>u. uu_bio_uncompress (codecs_fill 10) env0 fs0
          (mk_bio 512 (cpu_to_le32 10 @ replicate 10 7 @ replicate 498 0)) (replicate 512 255)
          (mk_crc BCH_COMPRESSION_ZSTD 1 1) = Inr u
      \<and> u_reads u = [(0, 4), (4, 10)] \<and> u_ret u = 0"
proof -
  have a: "ZSTD_compressCCtx (codecs_fill 10) (mem_read (replicate 1024 1) 0 1024)
                   ((512 + 2 ^ 64 - 4) mod 2 ^ 64) = (False, replicate 10 7)"
    by simp
  have b: "length (replicate 10 (7::byte)) < 2 ^ 32" by simp
  have c: "attempt_compress (codecs_fill 10) (replicate 512 0) 512 (replicate 1024 1) 1024
             BCH_COMPRESSION_ZSTD
           = Inr (14, cpu_to_le32 10 @ replicate 10 7 @ replicate 498 0)"
    by (simp add: attempt_compress_def zstd_stored)
  have d: "bio_map_or_bounce env0 fs0
             (mk_bio 512 (cpu_to_le32 10 @ replicate 10 7 @ replicate 498 0)) READ
           = Inr \<lparr>b = cpu_to_le32 10 @ replicate 10 7 @ replicate 498 0, type = BB_NONE,
                  rw = READ\<rparr>"
    by (simp add: bio_map_or_bounce_def uu_bio_map_or_bounce_def)
  have e: "compression_type (mk_crc BCH_COMPRESSION_ZSTD 1 1) = BCH_COMPRESSION_ZSTD"
    by (simp add: mk_crc_def)
  from zstd_length_prefix [OF a b c d _ e, of "codecs_fill 10" "replicate 512 255"]
  show ?thesis by (simp add: mk_crc_def)
qed

section \<open>Pools and feature bits\<close>

lemma inits_ok_simps [simp]:
  "inits_ok []" "inits_ok (EV_POOL_INIT p 0 # evs) = inits_ok evs"
  "inits_ok (xs @ ys) \<longleftrightarrow> inits_ok xs \<and> inits_ok ys"
  "inits_ok [EV_POOL_INIT p r] \<longleftrightarrow> r = 0"
  by (simp_all add: inits_ok_def)

lemma init_workspaces_post:
  "init_workspaces mi features c tab = (ret, c', evs) \<Longrightarrow>
     same_sb c c' \<and> compression_bounce c' = compression_bounce c
   \<and> decompress_workspace c' = decompress_workspace c
   \<and> (ret = 0 \<longrightarrow> inits_ok evs
        \<and> (\<forall>i \<in> set tab. features AND push_bit (fst i) 1 \<noteq> 0 \<longrightarrow> compress_workspace c' (snd i)))
   \<and> (ret \<noteq> 0 \<longrightarrow> (\<exists>inits p. evs = inits @ [EV_POOL_INIT p ret] \<and> inits_ok inits \<and> mi p = ret))
   \<and> (\<forall>t. compress_workspace c t \<longrightarrow> compress_workspace c' t)"
proof (induction mi features c tab arbitrary: ret c' evs rule: init_workspaces.induct)
  case (1 mi features c)
  then show ?case by (simp add: same_sb_def)
next
  case (2 mi features c feature ty rest)
  show ?case
  proof (cases "features AND push_bit feature 1 = 0")
    case True
    with 2 show ?thesis by simp
  next
    case bit: False
    show ?thesis
    proof (cases "compress_workspace c ty")
      case True
      with 2 bit show ?thesis by auto
    next
      case un: False
      show ?thesis
      proof (cases "mi (POOL_COMPRESS ty) = 0")
        case False
        with 2(4) bit un have "ret = mi (POOL_COMPRESS ty)" "c' = c"
          "evs = [] @ [EV_POOL_INIT (POOL_COMPRESS ty) ret]" by auto
        with False show ?thesis
          by (simp add: same_sb_def)
      next
        case ok: True
        let ?c1 = "c\<lparr>compress_workspace := (compress_workspace c)(ty := True)\<rparr>"
        obtain r1 c1 e1 where rec: "init_workspaces mi features ?c1 rest = (r1, c1, e1)"
          by (cases "init_workspaces mi features ?c1 rest") auto
        with 2(4) bit un ok have eq: "ret = r1" "c' = c1"
          "evs = EV_POOL_INIT (POOL_COMPRESS ty) 0 # e1" by simp_all
        from 2(3) [OF bit un _ rec] ok
        have IH: "same_sb ?c1 c1 \<and> compression_bounce c1 = compression_bounce ?c1
           \<and> decompress_workspace c1 = decompress_workspace ?c1
           \<and> (r1 = 0 \<longrightarrow> inits_ok e1
                \<and> (\<forall>i \<in> set rest. features AND push_bit (fst i) 1 \<noteq> 0 \<longrightarrow> compress_workspace c1 (snd i)))
           \<and> (r1 \<noteq> 0 \<longrightarrow> (\<exists>inits p. e1 = inits @ [EV_POOL_INIT p r1] \<and> inits_ok inits \<and> mi p = r1))
           \<and> (\<forall>t. compress_workspace ?c1 t \<longrightarrow> compress_workspace c1 t)" by simp
        have bad: "r1 \<noteq> 0 \<longrightarrow> (\<exists>inits p. evs = inits @ [EV_POOL_INIT p r1] \<and> inits_ok inits \<and> mi p = r1)"
        proof
          assume "r1 \<noteq> 0"
          with IH obtain inits p where "e1 = inits @ [EV_POOL_INIT p r1]" "inits_ok inits" "mi p = r1"
            by blast
          then have "evs = (EV_POOL_INIT (POOL_COMPRESS ty) 0 # inits) @ [EV_POOL_INIT p r1]
              \<and> inits_ok (EV_POOL_INIT (POOL_COMPRESS ty) 0 # inits) \<and> mi p = r1"
            using eq by simp
          then show "\<exists>inits p. evs = inits @ [EV_POOL_INIT p r1] \<and> inits_ok inits \<and> mi p = r1"
            by blast
        qed
        show ?thesis
          using IH bad eq by (auto simp: same_sb_def)
      qed
    qed
  qed
qed


lemma init_bounce_post:
  "init_bounce mi c d = (ret, c', evs) \<Longrightarrow>
     same_sb c c' \<and> compress_workspace c' = compress_workspace c
   \<and> decompress_workspace c' = decompress_workspace c
   \<and> (ret = 0 \<longrightarrow> inits_ok evs \<and> compression_bounce c' d
        \<and> (\<forall>d'. compression_bounce c d' \<longrightarrow> compression_bounce c' d'))
   \<and> (ret \<noteq> 0 \<longrightarrow> evs = [EV_POOL_INIT (POOL_BOUNCE d) ret] \<and> mi (POOL_BOUNCE d) = ret)"
  by (auto simp: init_bounce_def same_sb_def split: if_splits)

lemma init_decompress_post:
  "init_decompress mi c = (ret, c', evs) \<Longrightarrow>
     same_sb c c' \<and> compress_workspace c' = compress_workspace c
   \<and> compression_bounce c' = compression_bounce c
   \<and> (ret = 0 \<longrightarrow> inits_ok evs \<and> decompress_workspace c')
   \<and> (ret \<noteq> 0 \<longrightarrow> evs = [EV_POOL_INIT POOL_DECOMPRESS ret] \<and> mi POOL_DECOMPRESS = ret)"
  by (auto simp: init_decompress_def same_sb_def split: if_splits)

lemma same_sb_trans: "same_sb a b' \<Longrightarrow> same_sb b' c \<Longrightarrow> same_sb a c"
  by (simp add: same_sb_def)

lemma fs_compress_init_post:
  assumes run: "uu_bch2_fs_compress_init ft mi c features = (ret, c', evs)"
    and some: "list_ex (\<lambda>i. features AND push_bit (fst i) 1 \<noteq> 0) (compression_types ft)"
  shows "same_sb c c'
   \<and> (ret = 0 \<longrightarrow> inits_ok evs \<and> compression_bounce c' READ \<and> compression_bounce c' WRITE
        \<and> decompress_workspace c'
        \<and> (\<forall>i \<in> set (compression_types ft).
              features AND push_bit (fst i) 1 \<noteq> 0 \<longrightarrow> compress_workspace c' (snd i)))
   \<and> (ret \<noteq> 0 \<longrightarrow> (\<exists>inits p. evs = inits @ [EV_POOL_INIT p ret] \<and> inits_ok inits \<and> mi p = ret))"
proof -
  obtain r1 c1 e1 where s1: "init_bounce mi c READ = (r1, c1, e1)"
    by (cases "init_bounce mi c READ") auto
  note p1 = init_bounce_post [OF s1]
  show ?thesis
  proof (cases "r1 = 0")
    case False
    with run some s1 have "ret = r1" "c' = c1" "evs = [] @ e1"
      by (simp_all add: uu_bch2_fs_compress_init_def)
    with False p1 show ?thesis by (auto intro: exI [of _ "[]"])
  next
    case z1: True
    obtain r2 c2 e2 where s2: "init_bounce mi c1 WRITE = (r2, c2, e2)"
      by (cases "init_bounce mi c1 WRITE") auto
    note p2 = init_bounce_post [OF s2]
    show ?thesis
    proof (cases "r2 = 0")
      case False
      with run some s1 z1 s2 have "ret = r2" "c' = c2" "evs = e1 @ e2"
        by (simp_all add: uu_bch2_fs_compress_init_def)
      with False p1 p2 z1 show ?thesis
        by (auto simp: same_sb_def intro: exI [of _ e1])
    next
      case z2: True
      obtain r3 c3 e3 where
        s3: "init_workspaces mi features c2 (compression_types ft) = (r3, c3, e3)"
        by (cases "init_workspaces mi features c2 (compression_types ft)") auto
      note p3 = init_workspaces_post [OF s3]
      show ?thesis
      proof (cases "r3 = 0")
        case False
        with run some s1 z1 s2 z2 s3 have eq: "ret = r3" "c' = c3" "evs = e1 @ e2 @ e3"
          by (simp_all add: uu_bch2_fs_compress_init_def)
        from False p3 obtain inits p where
          "e3 = inits @ [EV_POOL_INIT p r3]" "inits_ok inits" "mi p = r3" by blast
        then have "evs = (e1 @ e2 @ inits) @ [EV_POOL_INIT p ret] \<and> inits_ok (e1 @ e2 @ inits)
            \<and> mi p = ret"
          using eq p1 p2 z1 z2 by simp
        then have "\<exists>inits p. evs = inits @ [EV_POOL_INIT p ret] \<and> inits_ok inits \<and> mi p = ret"
          by blast
        moreover have "same_sb c c'" using p1 p2 p3 eq by (simp add: same_sb_def)
        ultimately show ?thesis using False eq by simp
      next
        case z3: True
        obtain r4 c4 e4 where s4: "init_decompress mi c3 = (r4, c4, e4)"
          by (cases "init_decompress mi c3") auto
        note p4 = init_decompress_post [OF s4]
        from run some s1 z1 s2 z2 s3 z3 s4
        have eq: "ret = r4" "c' = c4" "evs = e1 @ e2 @ e3 @ e4"
          by (simp_all add: uu_bch2_fs_compress_init_def)
        have sb: "same_sb c c'" using p1 p2 p3 p4 eq by (simp add: same_sb_def)
        show ?thesis
        proof (cases "r4 = 0")
          case True
          have "compression_bounce c2 READ" "compression_bounce c2 WRITE"
            using p1 p2 z1 z2 by auto
          then have "compression_bounce c' READ" "compression_bounce c' WRITE"
            using p3 p4 eq by simp_all
          moreover have "\<forall>i \<in> set (compression_types ft).
              features AND push_bit (fst i) 1 \<noteq> 0 \<longrightarrow> compress_workspace c' (snd i)"
            using p3 p4 z3 eq by simp
          ultimately show ?thesis
            using True sb eq p1 p2 p3 p4 z1 z2 z3 by simp
        next
          case False
          with p4 have "evs = (e1 @ e2 @ e3) @ [EV_POOL_INIT POOL_DECOMPRESS ret]
              \<and> inits_ok (e1 @ e2 @ e3) \<and> mi POOL_DECOMPRESS = ret"
            using eq p1 p2 p3 z1 z2 z3 by simp
          then have "\<exists>inits p. evs = inits @ [EV_POOL_INIT p ret] \<and> inits_ok inits \<and> mi p = ret"
            by blast
          then show ?thesis using False sb eq by simp
        qed
      qed
    qed
  qed
qed


lemma opt_in_table:
  assumes "opt = BCH_COMPRESSION_OPT_LZ4 \<or> opt = BCH_COMPRESSION_OPT_GZIP
         \<or> opt = BCH_COMPRESSION_OPT_ZSTD"
  shows "(bch2_compression_opt_to_feature ft opt, opt_codec opt) \<in> set (compression_types ft)"
  using assms by (auto simp: compression_types_def)

text \<open>
  C2 (as amended). When the feature bit of a codec is not yet set,
  \<^verbatim>\<open>bch2_check_set_has_compressed_data\<close> does one of two things. Either every pool
  initialisation succeeds: then the trace is the lock, the initialisations, the setting of
  the bit, the superblock write and the unlock, in this order; the pools of the codec, both
  bounce pools and the decompression workspace exist in the state whose bit is then set
  and which is handed to the write; and the value is 0, whatever became of the write. Or a
  pool initialisation fails: then the value is the error of that initialisation, the trace
  ends with it and the unlock, and the feature bits are as they were.
\<close>

theorem feature_activation_order:
  assumes opt: "opt = BCH_COMPRESSION_OPT_LZ4 \<or> opt = BCH_COMPRESSION_OPT_GZIP
              \<or> opt = BCH_COMPRESSION_OPT_ZSTD"
    and bits: "BCH_FEATURE_LZ4 ft < 31" "BCH_FEATURE_GZIP ft < 31" "BCH_FEATURE_ZSTD ft < 31"
    and unset: "sb_features c AND push_bit (bch2_compression_opt_to_feature ft opt) 1
                  \<noteq> push_bit (bch2_compression_opt_to_feature ft opt) 1"
  shows "(\<exists>c1 inits.
            bch2_check_set_has_compressed_data ft mi ws flush_ok c opt
              = Inr (0,
                  ws (c1\<lparr>disk_sb_features := disk_sb_features c
                            OR push_bit (bch2_compression_opt_to_feature ft opt) 1\<rparr>),
                  [EV_LOCK] @ inits
                    @ [EV_SET_FEATURE (push_bit (bch2_compression_opt_to_feature ft opt) 1),
                       EV_WRITE_SUPER flush_ok, EV_UNLOCK])
          \<and> inits_ok inits \<and> same_sb c c1
          \<and> compress_workspace c1 (opt_codec opt)
          \<and> compression_bounce c1 READ \<and> compression_bounce c1 WRITE
          \<and> decompress_workspace c1)
       \<or> (\<exists>ret c1 inits p. ret \<noteq> 0
          \<and> bch2_check_set_has_compressed_data ft mi ws flush_ok c opt
              = Inr (ret, c1, [EV_LOCK] @ inits @ [EV_POOL_INIT p ret, EV_UNLOCK])
          \<and> mi p = ret \<and> inits_ok inits \<and> same_sb c c1)"
proof -
  let ?n = "bch2_compression_opt_to_feature ft opt"
  let ?f = "push_bit ?n (1::64 word)"
  let ?features = "sb_features c OR ?f"
  have n: "?n < 64" using opt bits by auto
  have hit: "?features AND push_bit ?n 1 \<noteq> 0" using n by simp
  have some: "list_ex (\<lambda>i. ?features AND push_bit (fst i) 1 \<noteq> 0) (compression_types ft)"
    unfolding list_ex_iff using opt_in_table [OF opt, of ft] hit by force
  obtain ret c1 evs where run: "uu_bch2_fs_compress_init ft mi c ?features = (ret, c1, evs)"
    by (cases "uu_bch2_fs_compress_init ft mi c ?features") auto
  note post = fs_compress_init_post [OF run some]
  have call: "bch2_check_set_has_compressed_data ft mi ws flush_ok c opt
      = Inr (uu_bch2_check_set_has_compressed_data ft mi ws flush_ok c ?f)"
    using opt by (auto simp: bch2_check_set_has_compressed_data_def)
  show ?thesis
  proof (cases "ret = 0")
    case True
    have ws: "compress_workspace c1 (opt_codec opt)"
      using post True opt_in_table [OF opt, of ft] hit by force
    have d: "disk_sb_features c1 = disk_sb_features c" using post by (simp add: same_sb_def)
    have "bch2_check_set_has_compressed_data ft mi ws flush_ok c opt
            = Inr (0, ws (c1\<lparr>disk_sb_features := disk_sb_features c OR ?f\<rparr>),
                   [EV_LOCK] @ evs @ [EV_SET_FEATURE ?f, EV_WRITE_SUPER flush_ok, EV_UNLOCK])"
      using call unset run True d by (simp add: uu_bch2_check_set_has_compressed_data_def)
    then show ?thesis using post True ws by blast
  next
    case False
    with post obtain inits p where
      ev: "evs = inits @ [EV_POOL_INIT p ret]" "inits_ok inits" "mi p = ret" by blast
    have "bch2_check_set_has_compressed_data ft mi ws flush_ok c opt
            = Inr (ret, c1, [EV_LOCK] @ inits @ [EV_POOL_INIT p ret, EV_UNLOCK])"
      using call unset run False ev by (simp add: uu_bch2_check_set_has_compressed_data_def)
    then show ?thesis using False ev post by blast
  qed
qed

lemma ft0_simps [simp]:
  "BCH_FEATURE_LZ4 ft0 = 0" "BCH_FEATURE_GZIP ft0 = 1" "BCH_FEATURE_ZSTD ft0 = 2"
  by (simp_all add: ft0_def)

lemma activation_example:
  "bch2_check_set_has_compressed_data ft0 mi_ok ws_keep flush_ok fs_new BCH_COMPRESSION_OPT_ZSTD
     = Inr (0,
         fs_new\<lparr>disk_sb_features := 4,
                compression_bounce := (compression_bounce fs_new)(READ := True, WRITE := True),
                compress_workspace := (compress_workspace fs_new)(BCH_COMPRESSION_ZSTD := True),
                decompress_workspace := True\<rparr>,
         [EV_LOCK, EV_POOL_INIT (POOL_BOUNCE READ) 0, EV_POOL_INIT (POOL_BOUNCE WRITE) 0,
          EV_POOL_INIT (POOL_COMPRESS BCH_COMPRESSION_ZSTD) 0, EV_POOL_INIT POOL_DECOMPRESS 0,
          EV_SET_FEATURE 4, EV_WRITE_SUPER flush_ok, EV_UNLOCK])"
  by (simp add: bch2_check_set_has_compressed_data_def uu_bch2_check_set_has_compressed_data_def
      uu_bch2_fs_compress_init_def compression_types_def init_bounce_def init_decompress_def
      mi_ok_def ws_keep_def fs_new_def)

text \<open>
  C2 as stated also wants an error, and the bit left unset, when the superblock write
  fails. Line 499 calls \<^verbatim>\<open>bch2_write_super\<close> for its effect only: with a write that
  fails, the value is 0 and the bit is set.
\<close>

theorem flush_failure_ignored:
  "bch2_check_set_has_compressed_data ft0 mi_ok ws_keep False fs_new BCH_COMPRESSION_OPT_ZSTD
     = Inr (0,
         fs_new\<lparr>disk_sb_features := 4,
                compression_bounce := (compression_bounce fs_new)(READ := True, WRITE := True),
                compress_workspace := (compress_workspace fs_new)(BCH_COMPRESSION_ZSTD := True),
                decompress_workspace := True\<rparr>,
         [EV_LOCK, EV_POOL_INIT (POOL_BOUNCE READ) 0, EV_POOL_INIT (POOL_BOUNCE WRITE) 0,
          EV_POOL_INIT (POOL_COMPRESS BCH_COMPRESSION_ZSTD) 0, EV_POOL_INIT POOL_DECOMPRESS 0,
          EV_SET_FEATURE 4, EV_WRITE_SUPER False, EV_UNLOCK])"
  by (rule activation_example)

lemma activation_nomem_example:
  "bch2_check_set_has_compressed_data ft0 mi_nomem ws_keep True fs_new BCH_COMPRESSION_OPT_ZSTD
     = Inr (- 12,
         fs_new\<lparr>compression_bounce := (compression_bounce fs_new)(READ := True, WRITE := True),
                compress_workspace := (compress_workspace fs_new)(BCH_COMPRESSION_ZSTD := True)\<rparr>,
         [EV_LOCK, EV_POOL_INIT (POOL_BOUNCE READ) 0, EV_POOL_INIT (POOL_BOUNCE WRITE) 0,
          EV_POOL_INIT (POOL_COMPRESS BCH_COMPRESSION_ZSTD) 0,
          EV_POOL_INIT POOL_DECOMPRESS (- 12), EV_UNLOCK])"
  by (simp add: bch2_check_set_has_compressed_data_def uu_bch2_check_set_has_compressed_data_def
      uu_bch2_fs_compress_init_def compression_types_def init_bounce_def init_decompress_def
      mi_nomem_def ENOMEM_def ws_keep_def fs_new_def)

theorem feature_activation_order_witness:
  "(\<exists>c1 inits.
      bch2_check_set_has_compressed_data ft0 mi_ok ws_keep True fs_new BCH_COMPRESSION_OPT_ZSTD
        = Inr (0, ws_keep (c1\<lparr>disk_sb_features := 4\<rparr>),
               [EV_LOCK] @ inits @ [EV_SET_FEATURE 4, EV_WRITE_SUPER True, EV_UNLOCK])
      \<and> inits_ok inits \<and> same_sb fs_new c1 \<and> compress_workspace c1 BCH_COMPRESSION_ZSTD
      \<and> decompress_workspace c1)
   \<and> (\<exists>c1 inits p.
      bch2_check_set_has_compressed_data ft0 mi_nomem ws_keep True fs_new BCH_COMPRESSION_OPT_ZSTD
        = Inr (- 12, c1, [EV_LOCK] @ inits @ [EV_POOL_INIT p (- 12), EV_UNLOCK])
      \<and> inits_ok inits \<and> same_sb fs_new c1)"
proof -
  have u: "sb_features fs_new AND push_bit (bch2_compression_opt_to_feature ft0 BCH_COMPRESSION_OPT_ZSTD) 1
            \<noteq> push_bit (bch2_compression_opt_to_feature ft0 BCH_COMPRESSION_OPT_ZSTD) 1"
    by (simp add: fs_new_def)
  have d: "disk_sb_features fs_new = 0" by (simp add: fs_new_def)
  from feature_activation_order [of BCH_COMPRESSION_OPT_ZSTD ft0 fs_new mi_ok ws_keep True, OF _ _ _ _ u]
  have one: "\<exists>c1 inits.
      bch2_check_set_has_compressed_data ft0 mi_ok ws_keep True fs_new BCH_COMPRESSION_OPT_ZSTD
        = Inr (0, ws_keep (c1\<lparr>disk_sb_features := 4\<rparr>),
               [EV_LOCK] @ inits @ [EV_SET_FEATURE 4, EV_WRITE_SUPER True, EV_UNLOCK])
      \<and> inits_ok inits \<and> same_sb fs_new c1 \<and> compress_workspace c1 BCH_COMPRESSION_ZSTD
      \<and> decompress_workspace c1"
    by (simp add: d activation_example) blast
  from feature_activation_order [of BCH_COMPRESSION_OPT_ZSTD ft0 fs_new mi_nomem ws_keep True, OF _ _ _ _ u]
  have two: "\<exists>c1 inits p.
      bch2_check_set_has_compressed_data ft0 mi_nomem ws_keep True fs_new BCH_COMPRESSION_OPT_ZSTD
        = Inr (- 12, c1, [EV_LOCK] @ inits @ [EV_POOL_INIT p (- 12), EV_UNLOCK])
      \<and> inits_ok inits \<and> same_sb fs_new c1"
    by (simp add: d activation_nomem_example)
  from one two show ?thesis by blast
qed

end
